theory Spec2Isabelle
  imports Main "HOL-Library.Word" "HOL-Library.Sublist" "HOL-Library.AList"
begin

unbundle bit_operations_syntax

section \<open>The content fingerprint: MD5 as used through \<open>hashlib.md5\<close>\<close>

text \<open>
  \<open>compute_md5\<close> of \<open>Synchronizer.py\<close> creates a \<open>hashlib.md5()\<close> object, feeds it
  the chunks it reads and asks for \<open>hexdigest()\<close>. The library object is modelled as
  the MD5 algorithm of RFC 1321 itself: four 32-bit registers, the bytes that do
  not yet fill a 64-byte block, and the number of bytes seen so far.
\<close>

type_synonym byte = "8 word"
type_synonym md5_regs = "32 word \<times> 32 word \<times> 32 word \<times> 32 word"

definition md5_K :: "32 word list" where
  "md5_K = [0xd76aa478, 0xe8c7b756, 0x242070db, 0xc1bdceee, 0xf57c0faf, 0x4787c62a,
            0xa8304613, 0xfd469501, 0x698098d8, 0x8b44f7af, 0xffff5bb1, 0x895cd7be,
            0x6b901122, 0xfd987193, 0xa679438e, 0x49b40821, 0xf61e2562, 0xc040b340,
            0x265e5a51, 0xe9b6c7aa, 0xd62f105d, 0x02441453, 0xd8a1e681, 0xe7d3fbc8,
            0x21e1cde6, 0xc33707d6, 0xf4d50d87, 0x455a14ed, 0xa9e3e905, 0xfcefa3f8,
            0x676f02d9, 0x8d2a4c8a, 0xfffa3942, 0x8771f681, 0x6d9d6122, 0xfde5380c,
            0xa4beea44, 0x4bdecfa9, 0xf6bb4b60, 0xbebfbc70, 0x289b7ec6, 0xeaa127fa,
            0xd4ef3085, 0x04881d05, 0xd9d4d039, 0xe6db99e5, 0x1fa27cf8, 0xc4ac5665,
            0xf4292244, 0x432aff97, 0xab9423a7, 0xfc93a039, 0x655b59c3, 0x8f0ccc92,
            0xffeff47d, 0x85845dd1, 0x6fa87e4f, 0xfe2ce6e0, 0xa3014314, 0x4e0811a1,
            0xf7537e82, 0xbd3af235, 0x2ad7d2bb, 0xeb86d391]"

definition md5_S :: "nat list" where
  "md5_S = [7, 12, 17, 22, 7, 12, 17, 22, 7, 12, 17, 22, 7, 12, 17, 22,
            5, 9, 14, 20, 5, 9, 14, 20, 5, 9, 14, 20, 5, 9, 14, 20,
            4, 11, 16, 23, 4, 11, 16, 23, 4, 11, 16, 23, 4, 11, 16, 23,
            6, 10, 15, 21, 6, 10, 15, 21, 6, 10, 15, 21, 6, 10, 15, 21]"

definition rotl32 :: "nat \<Rightarrow> 32 word \<Rightarrow> 32 word" where
  "rotl32 n x = (push_bit n x) OR (drop_bit (32 - n) x)"

definition md5_step :: "32 word list \<Rightarrow> nat \<Rightarrow> md5_regs \<Rightarrow> md5_regs" where
  "md5_step m i = (\<lambda>(a, b, c, d).
     let (f, g) =
           (if i < 16 then ((b AND c) OR (NOT b AND d), i)
            else if i < 32 then ((d AND b) OR (NOT d AND c), (5 * i + 1) mod 16)
            else if i < 48 then (b XOR c XOR d, (3 * i + 5) mod 16)
            else (c XOR (b OR NOT d), (7 * i) mod 16))
     in (d, b + rotl32 (md5_S ! i) (f + a + md5_K ! i + m ! g), b, c))"

fun le_word32 :: "byte list \<Rightarrow> 32 word" where
  "le_word32 [] = 0"
| "le_word32 (x # xs) = ucast x + push_bit 8 (le_word32 xs)"

fun words_of :: "nat \<Rightarrow> byte list \<Rightarrow> 32 word list" where
  "words_of 0 bs = []"
| "words_of (Suc n) bs = le_word32 (take 4 bs) # words_of n (drop 4 bs)"

definition md5_compress :: "md5_regs \<Rightarrow> byte list \<Rightarrow> md5_regs" where
  "md5_compress h block =
     (case h of (a0, b0, c0, d0) \<Rightarrow>
        (case fold (md5_step (words_of 16 block)) [0..<64] h of
           (a, b, c, d) \<Rightarrow> (a0 + a, b0 + b, c0 + c, d0 + d)))"

definition md5_init :: md5_regs where
  "md5_init = (0x67452301, 0xefcdab89, 0x98badcfe, 0x10325476)"

fun le_bytes :: "nat \<Rightarrow> 'a::len word \<Rightarrow> byte list" where
  "le_bytes 0 v = []"
| "le_bytes (Suc n) v = ucast v # le_bytes n (drop_bit 8 v)"

definition md5_pad :: "nat \<Rightarrow> byte list" where
  "md5_pad len = 0x80 # replicate ((119 - len mod 64) mod 64) 0
                   @ le_bytes 8 (word_of_nat (8 * len) :: 64 word)"

text \<open>Consume every complete 64-byte block; return the registers and the rest.\<close>

function md5_blocks :: "md5_regs \<Rightarrow> byte list \<Rightarrow> md5_regs \<times> byte list" where
  "md5_blocks h bs =
     (if length bs < 64 then (h, bs)
      else md5_blocks (md5_compress h (take 64 bs)) (drop 64 bs))"
  by pat_completeness auto
termination
  by (relation "measure (\<lambda>(h, bs). length bs)") auto

declare md5_blocks.simps [simp del]

definition hex_digit :: "nat \<Rightarrow> char" where
  "hex_digit n = ''0123456789abcdef'' ! (n mod 16)"

definition hex_byte :: "byte \<Rightarrow> string" where
  "hex_byte b = [hex_digit (unat b div 16), hex_digit (unat b)]"

definition md5_hex_regs :: "md5_regs \<Rightarrow> string" where
  "md5_hex_regs h = (case h of (a, b, c, d) \<Rightarrow>
      concat (map hex_byte (concat (map (le_bytes 4) [a, b, c, d]))))"

text \<open>The MD5 digest of a whole message, in lower-case hexadecimal.\<close>

definition md5_hex :: "byte list \<Rightarrow> string" where
  "md5_hex msg = md5_hex_regs (fst (md5_blocks md5_init (msg @ md5_pad (length msg))))"

text \<open>
  The running hash object: \<open>hashlib.md5()\<close>, \<open>.update(chunk)\<close> and \<open>.hexdigest()\<close>.
\<close>

type_synonym md5_state = "md5_regs \<times> byte list \<times> nat"

definition md5_new :: md5_state where
  "md5_new = (md5_init, [], 0)"

definition md5_update :: "md5_state \<Rightarrow> byte list \<Rightarrow> md5_state" where
  "md5_update s chunk = (case s of (h, pending, seen) \<Rightarrow>
      (case md5_blocks h (pending @ chunk) of
         (h', rest) \<Rightarrow> (h', rest, seen + length chunk)))"

definition md5_hexdigest :: "md5_state \<Rightarrow> string" where
  "md5_hexdigest s = (case s of (h, pending, seen) \<Rightarrow>
      md5_hex_regs (fst (md5_blocks h (pending @ md5_pad seen))))"

section \<open>The file system\<close>

text \<open>
  The program works on one file system through two path strings. A path is the
  list of its components below the file-system root; \<open>os.path.join\<close> appends
  components, and \<open>os.path.relpath root start\<close>, which the program only calls
  with \<open>root\<close> at or below \<open>start\<close>, strips the components of \<open>start\<close> (the
  result \<open>.\<close> for \<open>root = start\<close> is the empty list).

  The file system is one tree. A node is a regular file (its bytes, and whether it
  may be read and written) or a directory: its entries in enumeration order,
  whether it may be listed (the read permission, which \<open>os.scandir\<close> needs) and
  whether entries may be created and removed in it (the write permission). Every
  directory can be traversed (search permission); symbolic links, special files
  and ownership are not modelled. A directory is read as a finite map: the first
  binding of a name is the entry of that name.
\<close>

type_synonym name = string
type_synonym path = "name list"

datatype node =
    File (content: "byte list") (readable: bool) (writable: bool)
  | Dir (entries: "(name \<times> node) list") (dreadable: bool) (dwritable: bool)

datatype error =
    FileNotFoundError
  | NotADirectoryError
  | IsADirectoryError
  | FileExistsError
  | PermissionError
  | SameFileError
  | OSError

definition join :: "path \<Rightarrow> path \<Rightarrow> path" where
  "join a b = a @ b"

definition relpath :: "path \<Rightarrow> path \<Rightarrow> path" where
  "relpath p start = drop (length start) p"

definition basename :: "path \<Rightarrow> path" where
  "basename p = (if p = [] then [] else [last p])"

primrec resolve :: "path \<Rightarrow> node \<Rightarrow> error + node" where
  "resolve [] n = Inr n"
| "resolve (x # p) n =
     (case n of
        File c r w \<Rightarrow> Inl NotADirectoryError
      | Dir es ls w \<Rightarrow>
          (case map_of es x of
             None \<Rightarrow> Inl FileNotFoundError
           | Some c \<Rightarrow> resolve p c))"

definition lookup :: "node \<Rightarrow> path \<Rightarrow> node option" where
  "lookup root p = (case resolve p root of Inl e \<Rightarrow> None | Inr n \<Rightarrow> Some n)"

definition path_exists :: "node \<Rightarrow> path \<Rightarrow> bool" where
  "path_exists root p = (lookup root p \<noteq> None)"

definition isdir :: "node \<Rightarrow> path \<Rightarrow> bool" where
  "isdir root p = (case lookup root p of Some (Dir es ls w) \<Rightarrow> True | _ \<Rightarrow> False)"

text \<open>Storing a node at a path whose parent is a directory, and removing an entry.\<close>

primrec put :: "path \<Rightarrow> node \<Rightarrow> node \<Rightarrow> node" where
  "put [] new n = new"
| "put (x # p) new n =
     (case n of
        File c r w \<Rightarrow> n
      | Dir es ls w \<Rightarrow>
          (case map_of es x of
             None \<Rightarrow> (if p = [] then Dir (AList.update x new es) ls w else n)
           | Some c \<Rightarrow> Dir (AList.update x (put p new c) es) ls w))"

primrec del :: "path \<Rightarrow> node \<Rightarrow> node" where
  "del [] n = n"
| "del (x # p) n =
     (case n of
        File c r w \<Rightarrow> n
      | Dir es ls w \<Rightarrow>
          (if p = [] then Dir (AList.delete x es) ls w
           else (case map_of es x of
                   None \<Rightarrow> n
                 | Some c \<Rightarrow> Dir (AList.update x (del p c) es) ls w)))"

subsection \<open>The library calls the program makes\<close>

text \<open>\<open>open(path, "rb")\<close>: the bytes of a readable regular file.\<close>

definition open_rb :: "node \<Rightarrow> path \<Rightarrow> error + byte list" where
  "open_rb root p =
     (case resolve p root of
        Inl e \<Rightarrow> Inl e
      | Inr (Dir es ls w) \<Rightarrow> Inl IsADirectoryError
      | Inr (File c r w) \<Rightarrow> if r then Inr c else Inl PermissionError)"

text \<open>\<open>os.mkdir\<close>: the parent must be a writable directory without that entry.\<close>

definition mkdir :: "node \<Rightarrow> path \<Rightarrow> error + node" where
  "mkdir root p =
     (if p = [] then Inl FileExistsError
      else
        (case resolve (butlast p) root of
           Inl e \<Rightarrow> Inl e
         | Inr (File c r w) \<Rightarrow> Inl NotADirectoryError
         | Inr (Dir es ls w) \<Rightarrow>
             if map_of es (last p) \<noteq> None then Inl FileExistsError
             else if \<not> w then Inl PermissionError
             else Inr (put p (Dir [] True True) root)))"

text \<open>
  \<open>os.makedirs(name)\<close> with \<open>exist_ok=False\<close>: create the missing parents first
  (ignoring \<open>FileExistsError\<close> from that recursive call), then the leaf. An error
  comes with the file system as it is at that moment.
\<close>

function makedirs :: "node \<Rightarrow> path \<Rightarrow> (error \<times> node) + node" where
  "makedirs root p =
     (if p \<noteq> [] \<and> \<not> path_exists root (butlast p) then
        (case makedirs root (butlast p) of
           Inl (e, root') \<Rightarrow>
             if e = FileExistsError then
               (case mkdir root' p of Inl e' \<Rightarrow> Inl (e', root') | Inr root'' \<Rightarrow> Inr root'')
             else Inl (e, root')
         | Inr root' \<Rightarrow>
             (case mkdir root' p of Inl e' \<Rightarrow> Inl (e', root') | Inr root'' \<Rightarrow> Inr root''))
      else (case mkdir root p of Inl e' \<Rightarrow> Inl (e', root) | Inr root'' \<Rightarrow> Inr root''))"
  by pat_completeness auto
termination
  by (relation "measure (\<lambda>(root, p). length p)") auto

declare makedirs.simps [simp del]

text \<open>
  \<open>shutil.copy2(src, dst)\<close>: a destination that is a directory stands for the entry
  of the source's base name in it; the source is opened for reading, then the
  destination for writing (truncating a writable file, or creating the entry in a
  writable directory); content and permission bits of the source are copied.
\<close>

definition copyfile :: "node \<Rightarrow> path \<Rightarrow> path \<Rightarrow> error + node" where
  "copyfile root src dst =
     (if src = dst \<and> path_exists root src then Inl SameFileError
      else
        (case resolve src root of
           Inl e \<Rightarrow> Inl e
         | Inr (Dir es ls w) \<Rightarrow> Inl IsADirectoryError
         | Inr (File c r w) \<Rightarrow>
             if \<not> r then Inl PermissionError
             else if dst = [] then Inl IsADirectoryError
             else
               (case resolve (butlast dst) root of
                  Inl e \<Rightarrow> Inl e
                | Inr (File pc pr pw) \<Rightarrow> Inl NotADirectoryError
                | Inr (Dir pes pls pw) \<Rightarrow>
                    (case map_of pes (last dst) of
                       Some (Dir des dls dw) \<Rightarrow> Inl IsADirectoryError
                     | Some (File dc dr dw) \<Rightarrow>
                         if dw then Inr (put dst (File c r w) root) else Inl PermissionError
                     | None \<Rightarrow>
                         if pw then Inr (put dst (File c r w) root) else Inl PermissionError))))"

definition copy2 :: "node \<Rightarrow> path \<Rightarrow> path \<Rightarrow> error + node" where
  "copy2 root src dst =
     copyfile root src (if isdir root dst then join dst (basename src) else dst)"

text \<open>\<open>os.remove\<close>: unlink a non-directory entry of a writable directory.\<close>

definition os_remove :: "node \<Rightarrow> path \<Rightarrow> error + node" where
  "os_remove root p =
     (if p = [] then Inl IsADirectoryError
      else
        (case resolve (butlast p) root of
           Inl e \<Rightarrow> Inl e
         | Inr (File c r w) \<Rightarrow> Inl NotADirectoryError
         | Inr (Dir es ls w) \<Rightarrow>
             (case map_of es (last p) of
                None \<Rightarrow> Inl FileNotFoundError
              | Some (Dir des dls dw) \<Rightarrow> Inl IsADirectoryError
              | Some (File c r fw) \<Rightarrow>
                  if w then Inr (del p root) else Inl PermissionError)))"

text \<open>
  \<open>shutil.rmtree\<close> with the default error handler: a directory is opened for
  reading (which needs its read permission) and listed, its entries are removed
  in enumeration order, sub-directories recursively, and the first failure is
  raised, leaving what was removed so far removed. \<open>rm_entries w es\<close> empties a
  directory with entries \<open>es\<close> and write permission \<open>w\<close>; on failure it returns
  the entries that are left.
\<close>

fun rm_entries :: "bool \<Rightarrow> (name \<times> node) list \<Rightarrow> (error \<times> (name \<times> node) list) + unit" where
  "rm_entries w [] = Inr ()"
| "rm_entries w ((n, File c r fw) # es) =
     (if w then rm_entries w es else Inl (PermissionError, (n, File c r fw) # es))"
| "rm_entries w ((n, Dir ces cls cw) # es) =
     (if \<not> cls then Inl (PermissionError, (n, Dir ces cls cw) # es)
      else
        (case rm_entries cw ces of
           Inl (e, ces') \<Rightarrow> Inl (e, (n, Dir ces' cls cw) # es)
         | Inr u \<Rightarrow>
             if w then rm_entries w es else Inl (PermissionError, (n, Dir [] cls cw) # es)))"

definition rmtree :: "node \<Rightarrow> path \<Rightarrow> (error \<times> node) + node" where
  "rmtree root p =
     (case resolve p root of
        Inl e \<Rightarrow> Inl (e, root)
      | Inr (File c r w) \<Rightarrow> Inl (if r then NotADirectoryError else PermissionError, root)
      | Inr (Dir es ls w) \<Rightarrow>
          if \<not> ls then Inl (PermissionError, root)
          else
            (case rm_entries w es of
               Inl (e, es') \<Rightarrow> Inl (e, put p (Dir es' ls w) root)
             | Inr u \<Rightarrow>
                 if p = [] then Inl (OSError, put p (Dir [] ls w) root)
                 else
                   (case resolve (butlast p) root of
                      Inr (Dir pes pls pw) \<Rightarrow>
                        if pw then Inr (del p root)
                        else Inl (PermissionError, put p (Dir [] ls w) root)
                    | _ \<Rightarrow> Inl (OSError, root))))"

text \<open>
  \<open>os.scandir\<close> as \<open>os.walk\<close> uses it: the names of the sub-directories and of the
  other entries of a directory. It is \<open>None\<close> when \<open>os.scandir\<close> raises, because the
  path is not a directory or the directory may not be listed; \<open>os.walk\<close>, called
  without \<open>onerror\<close>, ignores that error and yields nothing for the path.
\<close>

definition scandir :: "node \<Rightarrow> path \<Rightarrow> (name list \<times> name list) option" where
  "scandir root d =
     (case lookup root d of
        Some (Dir es ls w) \<Rightarrow>
          if ls then
            Some (filter (\<lambda>n. isdir root (d @ [n])) (remdups (map fst es)),
                  filter (\<lambda>n. \<not> isdir root (d @ [n])) (remdups (map fst es)))
          else None
      | _ \<Rightarrow> None)"

section \<open>The program state: file system and log\<close>

text \<open>
  One constructor per \<open>logging\<close> call of \<open>Synchronizer.py\<close>, with the paths and the
  exception that the message text interpolates.
\<close>

datatype event =
    Info_ReplicaCreated path
  | Error_ReplicaPermission path
  | Error_ReplicaCreate path error
  | Info_DirCreated path
  | Error_DirCreate path error
  | Info_Synchronizing path path
  | Error_Synchronizing path path error
  | Info_FileRemoved path
  | Error_FileRemove path error
  | Info_DirRemoved path
  | Error_DirRemove path error
  | Error_Md5NotFound path
  | Error_Md5 path error

fun is_error :: "event \<Rightarrow> bool" where
  "is_error (Info_ReplicaCreated p) = False"
| "is_error (Info_DirCreated p) = False"
| "is_error (Info_Synchronizing p q) = False"
| "is_error (Info_FileRemoved p) = False"
| "is_error (Info_DirRemoved p) = False"
| "is_error e = True"

record state =
  fs :: node
  events :: "event list"

definition logging :: "event \<Rightarrow> state \<Rightarrow> state" where
  "logging e st = st\<lparr>events := events st @ [e]\<rparr>"

section \<open>\<open>compute_md5\<close>\<close>

text \<open>
  The loop \<open>for chunk in iter(lambda: f.read(4096), b"")\<close>: the open file is the
  list of bytes not yet read; \<open>f.read(4096)\<close> takes up to 4096 of them, and the
  loop ends at the first empty chunk.
\<close>

function read_chunks :: "byte list \<Rightarrow> md5_state \<Rightarrow> md5_state" where
  "read_chunks f hash_md5 =
     (let chunk = take 4096 f in
      if chunk = [] then hash_md5
      else read_chunks (drop 4096 f) (md5_update hash_md5 chunk))"
  by pat_completeness auto
termination
  by (relation "measure (\<lambda>(f, h). length f)") auto

declare read_chunks.simps [simp del]

definition compute_md5 :: "path \<Rightarrow> state \<Rightarrow> string \<times> state" where
  "compute_md5 file_path st =
     (case open_rb (fs st) file_path of
        Inr f \<Rightarrow> (md5_hexdigest (read_chunks f md5_new), st)
      | Inl e \<Rightarrow>
          if e = FileNotFoundError
          then (md5_hexdigest md5_new, logging (Error_Md5NotFound file_path) st)
          else (md5_hexdigest md5_new, logging (Error_Md5 file_path e) st))"

section \<open>\<open>sync_folders\<close>\<close>

text \<open>Lines 55 to 64: create the replica root, or log and re-raise.\<close>

definition create_replica :: "path \<Rightarrow> state \<Rightarrow> (error \<times> state) + state" where
  "create_replica replica st =
     (if \<not> path_exists (fs st) replica then
        (case makedirs (fs st) replica of
           Inr root' \<Rightarrow> Inr (logging (Info_ReplicaCreated replica) (st\<lparr>fs := root'\<rparr>))
         | Inl (e, root') \<Rightarrow>
             if e = PermissionError
             then Inl (e, logging (Error_ReplicaPermission replica) (st\<lparr>fs := root'\<rparr>))
             else Inl (e, logging (Error_ReplicaCreate replica e) (st\<lparr>fs := root'\<rparr>)))
      else Inr st)"

text \<open>Lines 71 to 77: the body of \<open>for dir_name in dirs\<close> of the forward pass.\<close>

definition mirror_dir :: "path \<Rightarrow> name \<Rightarrow> state \<Rightarrow> state" where
  "mirror_dir replica_root dir_name st =
     (let replica_dir = join replica_root [dir_name] in
      if \<not> path_exists (fs st) replica_dir then
        (case makedirs (fs st) replica_dir of
           Inr root' \<Rightarrow> logging (Info_DirCreated replica_dir) (st\<lparr>fs := root'\<rparr>)
         | Inl (e, root') \<Rightarrow> logging (Error_DirCreate replica_dir e) (st\<lparr>fs := root'\<rparr>))
      else st)"

text \<open>Lines 84 to 87: the copy, its log line, and the handler around it.\<close>

definition copy_and_log :: "path \<Rightarrow> path \<Rightarrow> state \<Rightarrow> state" where
  "copy_and_log source_file replica_file st =
     (case copy2 (fs st) source_file replica_file of
        Inr root' \<Rightarrow> logging (Info_Synchronizing source_file replica_file) (st\<lparr>fs := root'\<rparr>)
      | Inl e \<Rightarrow> logging (Error_Synchronizing source_file replica_file e) st)"

text \<open>
  Lines 80 to 87: the body of \<open>for file_name in files\<close> of the forward pass. The
  \<open>or\<close> is short-circuit: the digests are computed, source first, only when the
  replica file exists.
\<close>

definition sync_file :: "path \<Rightarrow> path \<Rightarrow> name \<Rightarrow> state \<Rightarrow> state" where
  "sync_file root replica_root file_name st =
     (let source_file = join root [file_name];
          replica_file = join replica_root [file_name]
      in if \<not> path_exists (fs st) replica_file then copy_and_log source_file replica_file st
         else
           (case compute_md5 source_file st of
              (d1, st1) \<Rightarrow>
                (case compute_md5 replica_file st1 of
                   (d2, st2) \<Rightarrow>
                     if d1 \<noteq> d2 then copy_and_log source_file replica_file st2 else st2)))"

text \<open>Lines 67 to 87: the body of the first \<open>for root, dirs, files in os.walk(source)\<close>.\<close>

definition forward_body :: "path \<Rightarrow> path \<Rightarrow> path \<Rightarrow> name list \<Rightarrow> name list \<Rightarrow> state \<Rightarrow> state" where
  "forward_body source replica root dirs files st =
     (let relative_path = relpath root source;
          replica_root = join replica relative_path
      in fold (sync_file root replica_root) files
           (fold (mirror_dir replica_root) dirs st))"

text \<open>Lines 94 to 101 and 104 to 111: the two inner loops of the reverse pass.\<close>

definition prune_file :: "path \<Rightarrow> path \<Rightarrow> name \<Rightarrow> state \<Rightarrow> state" where
  "prune_file root source_root file_name st =
     (let replica_file = join root [file_name];
          source_file = join source_root [file_name]
      in if \<not> path_exists (fs st) source_file then
           (case os_remove (fs st) replica_file of
              Inr root' \<Rightarrow> logging (Info_FileRemoved replica_file) (st\<lparr>fs := root'\<rparr>)
            | Inl e \<Rightarrow> logging (Error_FileRemove replica_file e) st)
         else st)"

definition prune_dir :: "path \<Rightarrow> path \<Rightarrow> name \<Rightarrow> state \<Rightarrow> state" where
  "prune_dir root source_root dir_name st =
     (let replica_dir = join root [dir_name];
          source_dir = join source_root [dir_name]
      in if \<not> path_exists (fs st) source_dir then
           (case rmtree (fs st) replica_dir of
              Inr root' \<Rightarrow> logging (Info_DirRemoved replica_dir) (st\<lparr>fs := root'\<rparr>)
            | Inl (e, root') \<Rightarrow> logging (Error_DirRemove replica_dir e) (st\<lparr>fs := root'\<rparr>))
         else st)"

text \<open>Lines 90 to 111: the body of \<open>for root, dirs, files in os.walk(replica)\<close>.\<close>

definition reverse_body :: "path \<Rightarrow> path \<Rightarrow> path \<Rightarrow> name list \<Rightarrow> name list \<Rightarrow> state \<Rightarrow> state" where
  "reverse_body source replica root dirs files st =
     (let relative_path = relpath root replica;
          source_root = join source relative_path
      in fold (prune_dir root source_root) dirs
           (fold (prune_file root source_root) files st))"

text \<open>
  \<open>for root, dirs, files in os.walk(top): body\<close>, top-down and lazy: a directory
  is listed when the walk reaches it, the loop body runs on that listing, and
  only then each listed sub-directory is walked, in the file system as the
  bodies have left it. The walk has no bound of its own; \<open>fuel\<close> bounds its depth,
  and \<open>None\<close> is a walk that needs more.
\<close>

fun for_each :: "('a \<Rightarrow> 's \<Rightarrow> 's option) \<Rightarrow> 'a list \<Rightarrow> 's \<Rightarrow> 's option" where
  "for_each f [] s = Some s"
| "for_each f (x # xs) s = (case f x s of None \<Rightarrow> None | Some s' \<Rightarrow> for_each f xs s')"

fun os_walk :: "nat \<Rightarrow> (path \<Rightarrow> name list \<Rightarrow> name list \<Rightarrow> state \<Rightarrow> state) \<Rightarrow> path \<Rightarrow> state \<Rightarrow> state option" where
  "os_walk 0 body d st = None"
| "os_walk (Suc fuel) body d st =
     (case scandir (fs st) d of
        None \<Rightarrow> Some st
      | Some (dirs, files) \<Rightarrow>
          for_each (\<lambda>dir_name. os_walk fuel body (join d [dir_name])) dirs
            (body d dirs files st))"

definition sync_folders :: "nat \<Rightarrow> path \<Rightarrow> path \<Rightarrow> state \<Rightarrow> ((error \<times> state) + state) option" where
  "sync_folders fuel source replica st =
     (case create_replica replica st of
        Inl (e, st') \<Rightarrow> Some (Inl (e, st'))
      | Inr st1 \<Rightarrow>
          (case os_walk fuel (forward_body source replica) source st1 of
             None \<Rightarrow> None
           | Some st2 \<Rightarrow>
               (case os_walk fuel (reverse_body source replica) replica st2 of
                  None \<Rightarrow> None
                | Some st3 \<Rightarrow> Some (Inr st3))))"

section \<open>Predicates used to state the properties\<close>

definition md5_inv :: "md5_state \<Rightarrow> byte list \<Rightarrow> bool" where
  "md5_inv s msg = (case s of (h, pending, seen) \<Rightarrow>
      md5_blocks md5_init msg = (h, pending) \<and> seen = length msg)"

definition shallow :: "node \<Rightarrow> node" where
  "shallow n = (case n of File c r w \<Rightarrow> File c r w | Dir es ls w \<Rightarrow> Dir [] ls w)"

text \<open>A directory that can be listed.\<close>

definition listable :: "node \<Rightarrow> path \<Rightarrow> bool" where
  "listable root d = (case lookup root d of Some (Dir es ls w) \<Rightarrow> ls | _ \<Rightarrow> False)"

definition creates :: "path \<Rightarrow> node \<Rightarrow> node \<Rightarrow> node \<Rightarrow> bool" where
  "creates t new root root' \<longleftrightarrow>
     lookup root' t = Some new \<and>
     (\<forall>q. \<not> prefix q t \<longrightarrow> lookup root' q = lookup root q) \<and>
     (\<forall>q. strict_prefix q t \<longrightarrow> isdir root' q \<and>
          (path_exists root q \<longrightarrow> map_option shallow (lookup root' q) = map_option shallow (lookup root q)) \<and>
          (\<not> path_exists root q \<longrightarrow> listable root' q))"

definition clean :: "state \<Rightarrow> bool" where
  "clean st \<longleftrightarrow> \<not> list_ex is_error (events st)"

definition isfile :: "node \<Rightarrow> path \<Rightarrow> bool" where
  "isfile root p = (case lookup root p of Some (File c r w) \<Rightarrow> True | _ \<Rightarrow> False)"

definition mirrored :: "node \<Rightarrow> path \<Rightarrow> path \<Rightarrow> path \<Rightarrow> bool" where
  "mirrored root source replica p =
     (case lookup root (source @ p) of
        None \<Rightarrow> True
      | Some (File c r w) \<Rightarrow>
          r \<and> (case lookup root (replica @ p) of
                 Some (File c' r' w') \<Rightarrow> r' \<and> md5_hex c' = md5_hex c
               | _ \<Rightarrow> False)
      | Some (Dir es ls w) \<Rightarrow> path_exists root (replica @ p))"

definition conflict_free :: "node \<Rightarrow> path \<Rightarrow> path \<Rightarrow> bool" where
  "conflict_free root source replica \<longleftrightarrow>
     (\<forall>p. \<not> (isdir root (source @ p) \<and> isfile root (replica @ p)))"

text \<open>
  The entries a walk from \<open>base\<close> comes to: those at a relative path all of whose
  proper ancestors, \<open>base\<close> included, can be listed.
\<close>

definition walked :: "node \<Rightarrow> path \<Rightarrow> path \<Rightarrow> bool" where
  "walked root base p \<longleftrightarrow> (\<forall>q. strict_prefix q p \<longrightarrow> listable root (base @ q))"

definition all_listable :: "node \<Rightarrow> path \<Rightarrow> bool" where
  "all_listable root base \<longleftrightarrow> (\<forall>p. isdir root (base @ p) \<longrightarrow> listable root (base @ p))"

definition frame_rel :: "path \<Rightarrow> state \<Rightarrow> state \<Rightarrow> bool" where
  "frame_rel replica st st' \<longleftrightarrow>
     (\<exists>es. events st' = events st @ es) \<and>
     (\<forall>q. q \<parallel> replica \<longrightarrow> lookup (fs st') q = lookup (fs st) q) \<and>
     (\<forall>q. prefix q replica \<longrightarrow> path_exists (fs st) q \<longrightarrow>
          map_option shallow (lookup (fs st') q) = map_option shallow (lookup (fs st) q))"

definition final_state :: "(error \<times> state) + state \<Rightarrow> state" where
  "final_state r = (case r of Inl (e, st) \<Rightarrow> st | Inr st \<Rightarrow> st)"

definition sz :: "node \<Rightarrow> path \<Rightarrow> nat" where
  "sz root p = (case lookup root p of None \<Rightarrow> 0 | Some n \<Rightarrow> size n)"

definition shrinks :: "path \<Rightarrow> path \<Rightarrow> state \<Rightarrow> state \<Rightarrow> bool" where
  "shrinks t d st st' \<longleftrightarrow>
     (\<forall>q. prefix t q \<and> (\<forall>x. \<not> strict_prefix (d @ [x]) q) \<longrightarrow> sz (fs st') q \<le> sz (fs st) q)"

definition fwd_rel :: "path \<Rightarrow> path \<Rightarrow> state \<Rightarrow> state \<Rightarrow> bool" where
  "fwd_rel source replica st st' \<longleftrightarrow>
     frame_rel replica st st' \<and>
     (clean st' \<longrightarrow>
        (\<forall>p. mirrored (fs st) source replica p \<longrightarrow> mirrored (fs st') source replica p) \<and>
        (conflict_free (fs st) source replica \<longrightarrow> conflict_free (fs st') source replica) \<and>
        (all_listable (fs st) replica \<longrightarrow> all_listable (fs st') replica))"

definition pruned :: "node \<Rightarrow> path \<Rightarrow> path \<Rightarrow> path \<Rightarrow> bool" where
  "pruned root source replica p \<longleftrightarrow>
     (if path_exists root (replica @ p) then path_exists root (source @ p) else True)"

definition rev_rel :: "path \<Rightarrow> path \<Rightarrow> state \<Rightarrow> state \<Rightarrow> bool" where
  "rev_rel source replica st st' \<longleftrightarrow>
     frame_rel replica st st' \<and>
     (clean st' \<longrightarrow>
        (\<forall>q. lookup (fs st') q = None \<or>
             map_option shallow (lookup (fs st') q) = map_option shallow (lookup (fs st) q)) \<and>
        (\<forall>p. path_exists (fs st) (source @ p) \<longrightarrow>
             map_option shallow (lookup (fs st') (replica @ p)) =
             map_option shallow (lookup (fs st) (replica @ p))))"

text \<open>
  What a pass without errors leaves: the replica root exists, every source entry
  the forward walk comes to has its replica counterpart, and every replica entry
  the reverse walk comes to has its source counterpart.
\<close>

definition settled :: "node \<Rightarrow> path \<Rightarrow> path \<Rightarrow> bool" where
  "settled root source replica \<longleftrightarrow>
     path_exists root replica \<and>
     (\<forall>p. p \<noteq> [] \<longrightarrow>
        (walked root source p \<longrightarrow> mirrored root source replica p) \<and>
        (walked root replica p \<longrightarrow> pruned root source replica p))"

function chunks_of :: "nat \<Rightarrow> byte list \<Rightarrow> byte list list" where
  "chunks_of n f = (if n = 0 \<or> f = [] then [] else take n f # chunks_of n (drop n f))"
  by pat_completeness auto

termination
  by (relation "measure (\<lambda>(n, f). length f)") auto

declare chunks_of.simps [simp del]

text \<open>
  What the replica tree looks like when it has converged to the source tree: below
  the two roots the same relative paths exist, a directory stands against a
  directory, and a file against a file whose content has the same MD5 digest.
\<close>

definition converged :: "node \<Rightarrow> path \<Rightarrow> path \<Rightarrow> bool" where
  "converged root source replica \<longleftrightarrow>
     (\<forall>p. p \<noteq> [] \<longrightarrow>
        (case lookup root (source @ p) of
           None \<Rightarrow> lookup root (replica @ p) = None
         | Some (File c r w) \<Rightarrow>
             (case lookup root (replica @ p) of
                Some (File c' r' w') \<Rightarrow> md5_hex c' = md5_hex c
              | _ \<Rightarrow> False)
         | Some (Dir es ls w) \<Rightarrow> isdir root (replica @ p)))"

text \<open>
  Two messages of 128 bytes with the same MD5 digest
  \<open>79054025255fb1a26e4bc422aef54eb4\<close> (Wang and Yu, 2004). They differ in six bytes.
\<close>

definition collision_a :: "byte list" where
  "collision_a =
     [0xd1, 0x31, 0xdd, 0x02, 0xc5, 0xe6, 0xee, 0xc4, 0x69, 0x3d, 0x9a, 0x06, 0x98, 0xaf, 0xf9, 0x5c,
      0x2f, 0xca, 0xb5, 0x87, 0x12, 0x46, 0x7e, 0xab, 0x40, 0x04, 0x58, 0x3e, 0xb8, 0xfb, 0x7f, 0x89,
      0x55, 0xad, 0x34, 0x06, 0x09, 0xf4, 0xb3, 0x02, 0x83, 0xe4, 0x88, 0x83, 0x25, 0x71, 0x41, 0x5a,
      0x08, 0x51, 0x25, 0xe8, 0xf7, 0xcd, 0xc9, 0x9f, 0xd9, 0x1d, 0xbd, 0xf2, 0x80, 0x37, 0x3c, 0x5b,
      0xd8, 0x82, 0x3e, 0x31, 0x56, 0x34, 0x8f, 0x5b, 0xae, 0x6d, 0xac, 0xd4, 0x36, 0xc9, 0x19, 0xc6,
      0xdd, 0x53, 0xe2, 0xb4, 0x87, 0xda, 0x03, 0xfd, 0x02, 0x39, 0x63, 0x06, 0xd2, 0x48, 0xcd, 0xa0,
      0xe9, 0x9f, 0x33, 0x42, 0x0f, 0x57, 0x7e, 0xe8, 0xce, 0x54, 0xb6, 0x70, 0x80, 0xa8, 0x0d, 0x1e,
      0xc6, 0x98, 0x21, 0xbc, 0xb6, 0xa8, 0x83, 0x93, 0x96, 0xf9, 0x65, 0x2b, 0x6f, 0xf7, 0x2a, 0x70]"

definition collision_b :: "byte list" where
  "collision_b =
     [0xd1, 0x31, 0xdd, 0x02, 0xc5, 0xe6, 0xee, 0xc4, 0x69, 0x3d, 0x9a, 0x06, 0x98, 0xaf, 0xf9, 0x5c,
      0x2f, 0xca, 0xb5, 0x07, 0x12, 0x46, 0x7e, 0xab, 0x40, 0x04, 0x58, 0x3e, 0xb8, 0xfb, 0x7f, 0x89,
      0x55, 0xad, 0x34, 0x06, 0x09, 0xf4, 0xb3, 0x02, 0x83, 0xe4, 0x88, 0x83, 0x25, 0xf1, 0x41, 0x5a,
      0x08, 0x51, 0x25, 0xe8, 0xf7, 0xcd, 0xc9, 0x9f, 0xd9, 0x1d, 0xbd, 0x72, 0x80, 0x37, 0x3c, 0x5b,
      0xd8, 0x82, 0x3e, 0x31, 0x56, 0x34, 0x8f, 0x5b, 0xae, 0x6d, 0xac, 0xd4, 0x36, 0xc9, 0x19, 0xc6,
      0xdd, 0x53, 0xe2, 0x34, 0x87, 0xda, 0x03, 0xfd, 0x02, 0x39, 0x63, 0x06, 0xd2, 0x48, 0xcd, 0xa0,
      0xe9, 0x9f, 0x33, 0x42, 0x0f, 0x57, 0x7e, 0xe8, 0xce, 0x54, 0xb6, 0x70, 0x80, 0x28, 0x0d, 0x1e,
      0xc6, 0x98, 0x21, 0xbc, 0xb6, 0xa8, 0x83, 0x93, 0x96, 0xf9, 0x65, 0xab, 0x6f, 0xf7, 0x2a, 0x70]"

text \<open>
  A step of the reverse pass only removes: when no error has been logged, every
  path is gone or has the kind, content and permissions it had.
\<close>

definition only_removes :: "state \<Rightarrow> state \<Rightarrow> bool" where
  "only_removes st st' \<longleftrightarrow>
     (\<exists>es. events st' = events st @ es) \<and>
     (clean st' \<longrightarrow>
        (\<forall>q. lookup (fs st') q = None \<or>
             map_option shallow (lookup (fs st') q) = map_option shallow (lookup (fs st) q)))"

section \<open>MD5: the running hash equals the digest of the whole message\<close>

lemma md5_blocks_append:
  "md5_blocks h (a @ b) = (case md5_blocks h a of (h', r) \<Rightarrow> md5_blocks h' (r @ b))"
proof (induction h a rule: md5_blocks.induct)
  case (1 h bs)
  show ?case
  proof (cases "length bs < 64")
    case True
    then show ?thesis by (simp add: md5_blocks.simps [of h bs])
  next
    case False
    then have "md5_blocks h (bs @ b) = md5_blocks (md5_compress h (take 64 bs)) (drop 64 bs @ b)"
      by (simp add: md5_blocks.simps [of h "bs @ b"])
    also have "\<dots> = (case md5_blocks (md5_compress h (take 64 bs)) (drop 64 bs) of
                       (h', r) \<Rightarrow> md5_blocks h' (r @ b))"
      using 1 False by simp
    also have "md5_blocks (md5_compress h (take 64 bs)) (drop 64 bs) = md5_blocks h bs"
      using False by (simp add: md5_blocks.simps [of h bs])
    finally show ?thesis .
  qed
qed

lemma md5_inv_new: "md5_inv md5_new []"
  by (simp add: md5_inv_def md5_new_def md5_blocks.simps [of md5_init "[]"])

lemma md5_inv_update: "md5_inv s msg \<Longrightarrow> md5_inv (md5_update s chunk) (msg @ chunk)"
  by (auto simp: md5_inv_def md5_update_def md5_blocks_append [of md5_init msg chunk]
           split: prod.splits)

lemma md5_inv_hexdigest: "md5_inv s msg \<Longrightarrow> md5_hexdigest s = md5_hex msg"
  by (auto simp: md5_inv_def md5_hexdigest_def md5_hex_def
                 md5_blocks_append [of md5_init msg "md5_pad (length msg)"]
           split: prod.splits)

lemma md5_inv_read_chunks: "md5_inv s msg \<Longrightarrow> md5_inv (read_chunks f s) (msg @ f)"
proof (induction f s arbitrary: msg rule: read_chunks.induct)
  case (1 f h)
  show ?case
  proof (cases "take 4096 f = []")
    case True
    then have "f = []" by (cases f) auto
    with 1 show ?thesis by (simp add: read_chunks.simps [of "[]" h])
  next
    case False
    have "md5_inv (read_chunks (drop 4096 f) (md5_update h (take 4096 f)))
            ((msg @ take 4096 f) @ drop 4096 f)"
      using 1 False by (intro "1.IH") (auto intro: md5_inv_update)
    with False show ?thesis
      by (simp add: read_chunks.simps [of f h] Let_def)
  qed
qed

lemma read_chunks_digest: "md5_hexdigest (read_chunks f md5_new) = md5_hex f"
  using md5_inv_read_chunks [OF md5_inv_new, of f] by (simp add: md5_inv_hexdigest)

lemma length_le_bytes: "length (le_bytes n v) = n"
  by (induction n arbitrary: v) auto

lemma length_concat_hex: "length (concat (map hex_byte bs)) = 2 * length bs"
  by (induction bs) (auto simp: hex_byte_def)

lemma length_md5_hex_regs: "length (md5_hex_regs h) = 32"
  by (cases h) (simp add: md5_hex_regs_def length_concat_hex length_le_bytes)

lemma hex_digit_in: "hex_digit n \<in> set ''0123456789abcdef''"
proof -
  have "n mod 16 < length ''0123456789abcdef''" by simp
  then show ?thesis unfolding hex_digit_def by (rule nth_mem)
qed

lemma set_md5_hex_regs: "set (md5_hex_regs h) \<subseteq> set ''0123456789abcdef''"
  using hex_digit_in by (cases h) (auto simp: md5_hex_regs_def hex_byte_def)

section \<open>Lookup after storing and removing\<close>

lemma lookup_Nil [simp]: "lookup n [] = Some n"
  by (simp add: lookup_def)

lemma lookup_Cons:
  "lookup n (x # p) =
     (case n of File c r w \<Rightarrow> None
      | Dir es ls w \<Rightarrow> (case map_of es x of None \<Rightarrow> None | Some c \<Rightarrow> lookup c p))"
  by (simp add: lookup_def split: node.splits option.splits)

lemma lookup_File [simp]: "lookup (File c r w) (x # p) = None"
  by (simp add: lookup_Cons)

lemma lookup_Dir [simp]:
  "lookup (Dir es ls w) (x # p) = (case map_of es x of None \<Rightarrow> None | Some c \<Rightarrow> lookup c p)"
  by (simp add: lookup_Cons)

lemma lookup_append:
  "lookup n (p @ q) = (case lookup n p of None \<Rightarrow> None | Some m \<Rightarrow> lookup m q)"
  by (induction p arbitrary: n) (auto simp: lookup_Cons split: node.splits option.splits)

lemma resolve_lookup: "resolve p n = Inr m \<longleftrightarrow> lookup n p = Some m"
  by (auto simp: lookup_def split: sum.splits)

lemma resolve_Inl_lookup: "resolve p n = Inl e \<Longrightarrow> lookup n p = None"
  by (auto simp: lookup_def split: sum.splits)

lemma lookup_None_resolve: "lookup n p = None \<Longrightarrow> \<exists>e. resolve p n = Inl e"
  by (auto simp: lookup_def split: sum.splits)

lemma lookup_put_parallel: "p \<parallel> q \<Longrightarrow> lookup (put p new n) q = lookup n q"
proof (induction p arbitrary: n q)
  case Nil
  then show ?case by simp
next
  case (Cons x p)
  then obtain y q' where q: "q = y # q'" by (cases q) auto
  show ?case
  proof (cases "x = y")
    case True
    with Cons.prems q have par: "p \<parallel> q'" by (simp add: parallel_def)
    then have "p \<noteq> []" by auto
    with True q Cons.IH [OF par] show ?thesis
      by (auto simp: update_conv' split: node.splits option.splits)
  next
    case False
    with q show ?thesis
      by (auto simp: update_conv' split: node.splits option.splits)
  qed
qed

lemma lookup_put_ancestor:
  "strict_prefix q p \<Longrightarrow>
     lookup (put p new n) q = map_option (put (drop (length q) p) new) (lookup n q)"
proof (induction q arbitrary: n p)
  case Nil
  then show ?case by simp
next
  case (Cons y q)
  then obtain p' where p: "p = y # p'" and sp: "strict_prefix q p'"
    by (cases p) (auto simp: strict_prefix_def)
  then have "p' \<noteq> []" by auto
  with p Cons.IH [OF sp] show ?case
    by (auto simp: update_conv' split: node.splits option.splits)
qed

lemma isdir_Cons:
  "isdir n (x # p) \<longleftrightarrow> (\<exists>es ls w c. n = Dir es ls w \<and> map_of es x = Some c \<and> isdir c p)"
  by (auto simp: isdir_def lookup_Cons split: node.splits option.splits)

lemma isdir_Nil: "isdir n [] \<longleftrightarrow> (\<exists>es ls w. n = Dir es ls w)"
  by (auto simp: isdir_def split: node.splits)

lemma put_noop: "p \<noteq> [] \<Longrightarrow> \<not> isdir n (butlast p) \<Longrightarrow> put p new n = n"
proof (induction p arbitrary: n)
  case Nil
  then show ?case by simp
next
  case (Cons x p)
  show ?case
  proof (cases "p = []")
    case True
    with Cons.prems show ?thesis by (auto simp: isdir_Nil split: node.splits)
  next
    case False
    show ?thesis
    proof (cases n)
      case (File c r w)
      then show ?thesis by simp
    next
      case (Dir es ls w)
      show ?thesis
      proof (cases "map_of es x")
        case None
        with Dir False show ?thesis by simp
      next
        case (Some c)
        with Dir False Cons.prems have "\<not> isdir c (butlast p)" by (simp add: isdir_Cons)
        with Cons.IH [of c] False have "put p new c = c" by simp
        with Dir Some show ?thesis by (simp add: update_triv)
      qed
    qed
  qed
qed

lemma lookup_put_below:
  "p = [] \<or> isdir n (butlast p) \<Longrightarrow> lookup (put p new n) (p @ q) = lookup new q"
proof (induction p arbitrary: n)
  case Nil
  then show ?case by simp
next
  case (Cons x p)
  show ?case
  proof (cases "p = []")
    case True
    with Cons.prems show ?thesis
      by (auto simp: isdir_Nil update_conv' split: node.splits option.splits)
  next
    case False
    with Cons.prems obtain es ls w c where n: "n = Dir es ls w" "map_of es x = Some c" "isdir c (butlast p)"
      by (auto simp: isdir_Cons)
    from Cons.IH [of c] n(3) have "lookup (put p new c) (p @ q) = lookup new q" by simp
    with n show ?thesis by (simp add: update_conv')
  qed
qed

lemma lookup_del_parallel: "p \<parallel> q \<Longrightarrow> lookup (del p n) q = lookup n q"
proof (induction p arbitrary: n q)
  case Nil
  then show ?case by simp
next
  case (Cons x p)
  then obtain y q' where q: "q = y # q'" by (cases q) auto
  show ?case
  proof (cases "x = y")
    case True
    with Cons.prems q have par: "p \<parallel> q'" by (simp add: parallel_def)
    then have "p \<noteq> []" by auto
    with True q Cons.IH [OF par] show ?thesis
      by (auto simp: update_conv' split: node.splits option.splits)
  next
    case False
    with q show ?thesis
      by (auto simp: update_conv' delete_conv' split: node.splits option.splits)
  qed
qed

lemma lookup_del_ancestor:
  "strict_prefix q p \<Longrightarrow>
     lookup (del p n) q = map_option (del (drop (length q) p)) (lookup n q)"
proof (induction q arbitrary: n p)
  case Nil
  then show ?case by simp
next
  case (Cons y q)
  then obtain p' where p: "p = y # p'" and sp: "strict_prefix q p'"
    by (cases p) (auto simp: strict_prefix_def)
  then have "p' \<noteq> []" by auto
  with p Cons.IH [OF sp] show ?case
    by (auto simp: update_conv' split: node.splits option.splits)
qed

lemma lookup_del_below: "p \<noteq> [] \<Longrightarrow> lookup (del p n) (p @ q) = None"
proof (induction p arbitrary: n)
  case Nil
  then show ?case by simp
next
  case (Cons x p)
  show ?case
  proof (cases p)
    case Nil
    then show ?thesis
      by (auto simp: lookup_Cons delete_conv' split: node.splits option.splits)
  next
    case (Cons y p')
    with Cons.IH show ?thesis
      by (auto simp: lookup_Cons update_conv' split: node.splits option.splits)
  qed
qed

lemma shallow_put: "p \<noteq> [] \<Longrightarrow> shallow (put p new n) = shallow n"
  by (cases p) (auto simp: shallow_def split: node.splits option.splits)

lemma shallow_del: "p \<noteq> [] \<Longrightarrow> shallow (del p n) = shallow n"
  by (cases p) (auto simp: shallow_def split: node.splits option.splits)

lemma lookup_snoc:
  "lookup n (p @ [x]) =
     (case lookup n p of Some (Dir es ls w) \<Rightarrow> map_of es x | _ \<Rightarrow> None)"
  by (auto simp: lookup_append split: option.splits node.splits)

lemma lookup_butlast:
  "p \<noteq> [] \<Longrightarrow> lookup n p =
     (case lookup n (butlast p) of Some (Dir es ls w) \<Rightarrow> map_of es (last p) | _ \<Rightarrow> None)"
  using lookup_snoc [of n "butlast p" "last p"] by simp

lemma path_exists_prefix: "path_exists n (p @ q) \<Longrightarrow> path_exists n p"
  by (auto simp: path_exists_def lookup_append split: option.splits)

lemma isdir_prefix: "path_exists n (p @ q) \<Longrightarrow> q \<noteq> [] \<Longrightarrow> isdir n p"
  by (cases q) (auto simp: path_exists_def isdir_def lookup_append split: option.splits node.splits)

lemma isdir_exists: "isdir n p \<Longrightarrow> path_exists n p"
  by (auto simp: isdir_def path_exists_def split: option.splits)

lemma mkdir_Inr:
  "mkdir root p = Inr root' \<Longrightarrow>
     p \<noteq> [] \<and> isdir root (butlast p) \<and> lookup root p = None \<and> root' = put p (Dir [] True True) root"
  by (auto simp: mkdir_def isdir_def resolve_lookup lookup_butlast
           split: if_splits sum.splits node.splits option.splits)

lemma mkdir_Inl_iff:
  "(\<exists>e. mkdir root p = Inl e) \<longleftrightarrow>
     \<not> (p \<noteq> [] \<and> (\<exists>es ls. lookup root (butlast p) = Some (Dir es ls True)) \<and> lookup root p = None)"
  by (auto simp: mkdir_def resolve_lookup lookup_butlast
           split: if_splits sum.splits node.splits option.splits dest: resolve_Inl_lookup)

lemma copyfile_Inr:
  "copyfile root src dst = Inr root' \<Longrightarrow>
     \<exists>c w. lookup root src = Some (File c True w) \<and> dst \<noteq> [] \<and> isdir root (butlast dst)
        \<and> \<not> isdir root dst \<and> src \<noteq> dst \<and> root' = put dst (File c True w) root"
  by (auto simp: copyfile_def isdir_def path_exists_def resolve_lookup lookup_butlast
           split: if_splits sum.splits node.splits option.splits)

lemma os_remove_Inr:
  "os_remove root p = Inr root' \<Longrightarrow>
     p \<noteq> [] \<and> (\<exists>c r w. lookup root p = Some (File c r w)) \<and> root' = del p root"
  by (auto simp: os_remove_def resolve_lookup lookup_butlast
           split: if_splits sum.splits node.splits option.splits)

lemma rmtree_Inr:
  "rmtree root p = Inr root' \<Longrightarrow> p \<noteq> [] \<and> isdir root p \<and> root' = del p root"
  by (auto simp: rmtree_def isdir_def resolve_lookup
           split: if_splits sum.splits node.splits option.splits prod.splits)

lemma rmtree_Inl:
  "rmtree root p = Inl (e, root') \<Longrightarrow> root' = root \<or> (\<exists>n. root' = put p n root)"
  by (auto simp: rmtree_def isdir_def resolve_lookup
           split: if_splits sum.splits node.splits option.splits prod.splits)

section \<open>What the library calls do when they succeed\<close>

lemma listable_isdir: "listable root d \<Longrightarrow> isdir root d"
  by (auto simp: listable_def isdir_def split: option.splits node.splits)

lemma listable_cong: "lookup a x = lookup b y \<Longrightarrow> listable a x = listable b y"
  by (simp add: listable_def)

lemma listable_shallow:
  "map_option shallow (lookup a x) = map_option shallow (lookup b y) \<Longrightarrow> listable a x = listable b y"
  by (cases "lookup a x"; cases "lookup b y")
     (auto simp: listable_def shallow_def split: node.splits)

lemma strict_prefix_butlast: "strict_prefix q p \<Longrightarrow> prefix q (butlast p)"
  by (metis append_butlast_last_id prefix_snoc strict_prefix_def prefix_bot.extremum_uniqueI strict_prefixE)

lemma put_creates:
  assumes t: "t \<noteq> []" and par: "isdir root (butlast t)" and nd: "\<not> isdir root t"
    and leaf: "\<And>q. q \<noteq> [] \<Longrightarrow> lookup new q = None"
  shows "creates t new root (put t new root)"
proof -
  have 1: "lookup (put t new root) t = Some new"
    using lookup_put_below [of t root new "[]"] par by simp
  have 2: "lookup (put t new root) q = lookup root q" if "\<not> prefix q t" for q
  proof (cases "prefix t q")
    case True
    then obtain r where q: "q = t @ r" by (auto simp: prefix_def)
    with that have r: "r \<noteq> []" by auto
    have "lookup root q = None"
      using nd r q by (cases r) (auto simp: isdir_def lookup_append split: option.splits node.splits)
    moreover have "lookup (put t new root) q = None"
      using lookup_put_below [of t root new r] par leaf [OF r] q by simp
    ultimately show ?thesis by simp
  next
    case False
    with that have "t \<parallel> q" by (simp add: parallel_def)
    then show ?thesis by (rule lookup_put_parallel)
  qed
  have 3: "isdir (put t new root) q \<and>
          (path_exists root q \<longrightarrow> map_option shallow (lookup (put t new root) q) = map_option shallow (lookup root q)) \<and>
          (\<not> path_exists root q \<longrightarrow> listable (put t new root) q)"
    if sp: "strict_prefix q t" for q
  proof -
    from sp have "prefix q (butlast t)" by (rule strict_prefix_butlast)
    then obtain r where r: "butlast t = q @ r" by (auto simp: prefix_def)
    have dq: "isdir root q"
    proof (cases "r = []")
      case True with r par show ?thesis by simp
    next
      case False
      with r par show ?thesis using isdir_prefix [of root q r] isdir_exists by simp
    qed
    from sp have ne: "drop (length q) t \<noteq> []" by (auto simp: strict_prefix_def prefix_def)
    have eq: "lookup (put t new root) q = map_option (put (drop (length q) t) new) (lookup root q)"
      using sp by (rule lookup_put_ancestor)
    from dq obtain es ls w where l: "lookup root q = Some (Dir es ls w)"
      by (auto simp: isdir_def split: option.splits node.splits)
    have "shallow (put (drop (length q) t) new (Dir es ls w)) = shallow (Dir es ls w)"
      using ne by (rule shallow_put)
    with eq l show ?thesis
      by (auto simp: isdir_def shallow_def path_exists_def split: node.splits)
  qed
  from 1 2 3 show ?thesis unfolding creates_def by blast
qed

lemma mkdir_creates:
  "mkdir root p = Inr root' \<Longrightarrow> creates p (Dir [] True True) root root' \<and> lookup root p = None"
proof -
  assume a: "mkdir root p = Inr root'"
  then have p: "p \<noteq> []" "isdir root (butlast p)" "lookup root p = None" "root' = put p (Dir [] True True) root"
    using mkdir_Inr by blast+
  have "\<not> isdir root p" using p(3) by (simp add: isdir_def)
  moreover have "lookup (Dir [] True True) q = None" if "q \<noteq> []" for q
    using that by (cases q) auto
  ultimately show ?thesis using put_creates [of p root "Dir [] True True"] p by simp
qed

lemma copyfile_creates:
  "copyfile root src dst = Inr root' \<Longrightarrow>
     \<exists>c w. lookup root src = Some (File c True w) \<and> creates dst (File c True w) root root'
        \<and> \<not> isdir root dst \<and> src \<noteq> dst"
proof -
  assume "copyfile root src dst = Inr root'"
  then obtain c w where p: "lookup root src = Some (File c True w)" "dst \<noteq> []"
      "isdir root (butlast dst)" "\<not> isdir root dst" "src \<noteq> dst" "root' = put dst (File c True w) root"
    using copyfile_Inr by blast
  have "lookup (File c True w) q = None" if "q \<noteq> []" for q
    using that by (cases q) auto
  then have "creates dst (File c True w) root root'"
    using put_creates [of dst root "File c True w"] p by simp
  with p show ?thesis by blast
qed

lemma makedirs_spec:
  "(\<forall>e root'. makedirs root p = Inl (e, root') \<longrightarrow> root' = root) \<and>
   (\<forall>root'. makedirs root p = Inr root' \<longrightarrow>
       creates p (Dir [] True True) root root' \<and> lookup root p = None)"
proof (induction root p rule: makedirs.induct)
  case (1 root p)
  show ?case
  proof (cases "p \<noteq> [] \<and> \<not> path_exists root (butlast p)")
    case False
    then have eq: "makedirs root p = (case mkdir root p of Inl e' \<Rightarrow> Inl (e', root) | Inr r \<Rightarrow> Inr r)"
      by (subst makedirs.simps) auto
    show ?thesis unfolding eq using mkdir_creates [of root p]
      by (auto split: sum.splits)
  next
    case True
    note IH = "1.IH" [OF True]
    have nomk: "mkdir root p = Inr r \<Longrightarrow> False" for r
      using True mkdir_Inr [of root p r] isdir_exists by blast
    show ?thesis
    proof (cases "makedirs root (butlast p)")
      case (Inl er)
      obtain e r1 where er: "er = (e, r1)" by (cases er)
      with IH Inl have r1: "r1 = root" by simp
      have "makedirs root p = (if e = FileExistsError then
               (case mkdir root p of Inl e' \<Rightarrow> Inl (e', root) | Inr r \<Rightarrow> Inr r)
             else Inl (e, root))"
        using True Inl er r1 by (subst makedirs.simps) auto
      then show ?thesis using nomk by (auto split: sum.splits if_splits)
    next
      case (Inr r1)
      with IH have c1: "creates (butlast p) (Dir [] True True) root r1" by simp
      have eq: "makedirs root p = (case mkdir r1 p of Inl e' \<Rightarrow> Inl (e', r1) | Inr r \<Rightarrow> Inr r)"
        using True Inr by (subst makedirs.simps) auto
      have l1: "lookup r1 (butlast p) = Some (Dir [] True True)"
        using c1 by (simp add: creates_def)
      from True have pne: "p \<noteq> []" by simp
      have "lookup r1 p = None" using l1 pne by (simp add: lookup_butlast)
      with l1 pne have "\<not> (\<exists>e. mkdir r1 p = Inl e)"
        by (subst mkdir_Inl_iff) auto
      then obtain r2 where mk: "mkdir r1 p = Inr r2" by (cases "mkdir r1 p") auto
      then have c2: "creates p (Dir [] True True) r1 r2" using mkdir_creates by blast
      have none: "lookup root p = None"
        using True pne by (auto simp: path_exists_def lookup_butlast)
      have "creates p (Dir [] True True) root r2"
        unfolding creates_def
      proof (intro conjI allI impI)
        show "lookup r2 p = Some (Dir [] True True)" using c2 by (simp add: creates_def)
      next
        fix q assume np: "\<not> prefix q p"
        then have "\<not> prefix q (butlast p)"
          by (metis append_butlast_last_id pne prefix_prefix)
        with c1 c2 np show "lookup r2 q = lookup root q" by (simp add: creates_def)
      next
        fix q assume sp: "strict_prefix q p"
        with c2 show "isdir r2 q" by (simp add: creates_def)
      next
        fix q assume sp: "strict_prefix q p" and ex: "path_exists root q"
        from sp have pb: "prefix q (butlast p)" by (rule strict_prefix_butlast)
        with ex True have "q \<noteq> butlast p" by auto
        with pb have sp1: "strict_prefix q (butlast p)" by (simp add: strict_prefix_def)
        with c1 ex have a: "map_option shallow (lookup r1 q) = map_option shallow (lookup root q)"
          and d1: "isdir r1 q" by (simp_all add: creates_def)
        from c2 sp d1 have "map_option shallow (lookup r2 q) = map_option shallow (lookup r1 q)"
          by (simp add: creates_def isdir_exists)
        with a show "map_option shallow (lookup r2 q) = map_option shallow (lookup root q)" by simp
      next
        fix q assume sp: "strict_prefix q p" and nex: "\<not> path_exists root q"
        from sp have pb: "prefix q (butlast p)" by (rule strict_prefix_butlast)
        have l1q: "listable r1 q"
        proof (cases "q = butlast p")
          case True
          with l1 show ?thesis by (simp add: listable_def)
        next
          case False
          with pb have "strict_prefix q (butlast p)" by (simp add: strict_prefix_def)
          with c1 nex show ?thesis by (simp add: creates_def)
        qed
        then have "path_exists r1 q" using listable_isdir isdir_exists by blast
        with c2 sp have "map_option shallow (lookup r2 q) = map_option shallow (lookup r1 q)"
          by (simp add: creates_def)
        then show "listable r2 q" using l1q listable_shallow by blast
      qed
      with eq mk none show ?thesis by simp
    qed
  qed
qed

section \<open>The steps of the forward pass\<close>

lemma fs_logging [simp]: "fs (logging e st) = fs st"
  by (simp add: logging_def)

lemma events_logging [simp]: "events (logging e st) = events st @ [e]"
  by (simp add: logging_def)

lemma clean_logging [simp]: "clean (logging e st) \<longleftrightarrow> clean st \<and> \<not> is_error e"
  by (auto simp: clean_def)

lemma clean_fs_update [simp]: "clean (st\<lparr>fs := r\<rparr>) = clean st"
  by (simp add: clean_def)

lemma open_rb_Inr: "open_rb root p = Inr c \<longleftrightarrow> (\<exists>w. lookup root p = Some (File c True w))"
  by (auto simp: open_rb_def resolve_lookup split: sum.splits node.splits dest: resolve_Inl_lookup)

lemma compute_md5_readable:
  "lookup (fs st) p = Some (File c True w) \<Longrightarrow> compute_md5 p st = (md5_hex c, st)"
proof -
  assume "lookup (fs st) p = Some (File c True w)"
  then have "open_rb (fs st) p = Inr c" by (auto simp: open_rb_Inr)
  then show ?thesis by (simp add: compute_md5_def read_chunks_digest)
qed

lemma compute_md5_cases:
  "(\<exists>c w. lookup (fs st) p = Some (File c True w) \<and> compute_md5 p st = (md5_hex c, st)) \<or>
   (\<exists>e. is_error e \<and> compute_md5 p st = (md5_hex [], logging e st))"
proof (cases "open_rb (fs st) p")
  case (Inr c)
  then show ?thesis using compute_md5_readable open_rb_Inr by blast
next
  case (Inl e)
  have "md5_hexdigest md5_new = md5_hex []"
    using md5_inv_hexdigest [OF md5_inv_new] .
  with Inl have "compute_md5 p st =
      (md5_hex [], logging (if e = FileNotFoundError then Error_Md5NotFound p else Error_Md5 p e) st)"
    by (simp add: compute_md5_def)
  moreover have "is_error (if e = FileNotFoundError then Error_Md5NotFound p else Error_Md5 p e)"
    by simp
  ultimately show ?thesis by blast
qed

lemma copy2_Inr:
  "copy2 root src dst = Inr root' \<Longrightarrow> \<not> isdir root dst \<Longrightarrow>
     \<exists>c w. lookup root src = Some (File c True w) \<and> creates dst (File c True w) root root' \<and> src \<noteq> dst"
  using copyfile_creates [of root src dst root'] by (auto simp: copy2_def)

lemma mirror_dir_cases:
  "mirror_dir rr d st = st \<and> path_exists (fs st) (rr @ [d]) \<or>
   (\<exists>root'. creates (rr @ [d]) (Dir [] True True) (fs st) root' \<and> lookup (fs st) (rr @ [d]) = None \<and>
       mirror_dir rr d st = logging (Info_DirCreated (rr @ [d])) (st\<lparr>fs := root'\<rparr>)) \<or>
   (\<exists>e. mirror_dir rr d st = logging (Error_DirCreate (rr @ [d]) e) st)"
proof (cases "path_exists (fs st) (rr @ [d])")
  case True
  then show ?thesis by (simp add: mirror_dir_def join_def)
next
  case False
  show ?thesis
  proof (cases "makedirs (fs st) (rr @ [d])")
    case (Inl er)
    then obtain e where "makedirs (fs st) (rr @ [d]) = Inl (e, fs st)"
      using makedirs_spec [of "fs st" "rr @ [d]"] by (cases er) auto
    with False have "mirror_dir rr d st = logging (Error_DirCreate (rr @ [d]) e) st"
      by (simp add: mirror_dir_def join_def)
    then show ?thesis by blast
  next
    case (Inr root')
    with False have "mirror_dir rr d st = logging (Info_DirCreated (rr @ [d])) (st\<lparr>fs := root'\<rparr>)"
      by (simp add: mirror_dir_def join_def)
    moreover have "creates (rr @ [d]) (Dir [] True True) (fs st) root' \<and> lookup (fs st) (rr @ [d]) = None"
      using Inr makedirs_spec [of "fs st" "rr @ [d]"] by simp
    ultimately show ?thesis by blast
  qed
qed

lemma copy_and_log_cases:
  "(\<exists>e. copy_and_log src dst st = logging (Error_Synchronizing src dst e) st) \<or>
   (\<exists>root'. copy2 (fs st) src dst = Inr root' \<and>
       copy_and_log src dst st = logging (Info_Synchronizing src dst) (st\<lparr>fs := root'\<rparr>))"
  by (cases "copy2 (fs st) src dst") (auto simp: copy_and_log_def)

lemma sync_file_clean:
  assumes "clean (sync_file root rr f st)"
  shows "\<exists>c w. lookup (fs st) (root @ [f]) = Some (File c True w) \<and>
      (sync_file root rr f st = st \<and>
          (\<exists>c' w'. lookup (fs st) (rr @ [f]) = Some (File c' True w') \<and> md5_hex c' = md5_hex c)
       \<or> (\<exists>root'. creates (rr @ [f]) (File c True w) (fs st) root' \<and> \<not> isdir (fs st) (rr @ [f]) \<and>
             sync_file root rr f st =
               logging (Info_Synchronizing (root @ [f]) (rr @ [f])) (st\<lparr>fs := root'\<rparr>)))"
proof (cases "path_exists (fs st) (rr @ [f])")
  case False
  then have nd: "\<not> isdir (fs st) (rr @ [f])" using isdir_exists by blast
  from False have eq: "sync_file root rr f st = copy_and_log (root @ [f]) (rr @ [f]) st"
    by (simp add: sync_file_def join_def)
  with assms copy_and_log_cases [of "root @ [f]" "rr @ [f]" st]
  obtain root' where c: "copy2 (fs st) (root @ [f]) (rr @ [f]) = Inr root'"
    "copy_and_log (root @ [f]) (rr @ [f]) st =
       logging (Info_Synchronizing (root @ [f]) (rr @ [f])) (st\<lparr>fs := root'\<rparr>)"
    by auto
  from copy2_Inr [OF c(1) nd] c(2) eq nd show ?thesis by auto
next
  case True
  note ex = True
  consider (a) c w where "lookup (fs st) (root @ [f]) = Some (File c True w)"
        "compute_md5 (root @ [f]) st = (md5_hex c, st)"
    | (b) e where "is_error e" "compute_md5 (root @ [f]) st = (md5_hex [], logging e st)"
    using compute_md5_cases [of st "root @ [f]"] by blast
  then show ?thesis
  proof cases
    case b
    obtain d2 st2 where 2: "compute_md5 (rr @ [f]) (logging e st) = (d2, st2)" by force
    have "\<not> clean st2"
      using compute_md5_cases [of "logging e st" "rr @ [f]"] 2 b(1) by auto
    moreover have "\<not> clean (copy_and_log (root @ [f]) (rr @ [f]) st2)"
      using copy_and_log_cases [of "root @ [f]" "rr @ [f]" st2] calculation by auto
    ultimately have "\<not> clean (sync_file root rr f st)"
      using ex b 2 by (simp add: sync_file_def join_def)
    with assms show ?thesis by simp
  next
    case a
    consider (a2) c' w' where "lookup (fs st) (rr @ [f]) = Some (File c' True w')"
          "compute_md5 (rr @ [f]) st = (md5_hex c', st)"
      | (b2) e where "is_error e" "compute_md5 (rr @ [f]) st = (md5_hex [], logging e st)"
      using compute_md5_cases [of st "rr @ [f]"] by blast
    then show ?thesis
    proof cases
      case b2
      have "\<not> clean (copy_and_log (root @ [f]) (rr @ [f]) (logging e st))"
        using copy_and_log_cases [of "root @ [f]" "rr @ [f]" "logging e st"] b2(1) by auto
      with b2 a ex have "\<not> clean (sync_file root rr f st)"
        by (simp add: sync_file_def join_def)
      with assms show ?thesis by simp
    next
      case a2
      then have nd: "\<not> isdir (fs st) (rr @ [f])" by (simp add: isdir_def)
      show ?thesis
      proof (cases "md5_hex c = md5_hex c'")
        case True
        with a a2 ex show ?thesis by (simp add: sync_file_def join_def)
      next
        case False
        with a a2 ex have eq: "sync_file root rr f st = copy_and_log (root @ [f]) (rr @ [f]) st"
          by (simp add: sync_file_def join_def)
        with assms copy_and_log_cases [of "root @ [f]" "rr @ [f]" st]
        obtain root' where c: "copy2 (fs st) (root @ [f]) (rr @ [f]) = Inr root'"
          "copy_and_log (root @ [f]) (rr @ [f]) st =
             logging (Info_Synchronizing (root @ [f]) (rr @ [f])) (st\<lparr>fs := root'\<rparr>)"
          by auto
        from copy2_Inr [OF c(1) nd] c(2) eq nd a(1) show ?thesis by auto
      qed
    qed
  qed
qed

section \<open>Everything outside the replica tree is left alone\<close>

lemma fold_rule:
  assumes refl: "\<And>s. R s s" and trans: "\<And>a b c. R a b \<Longrightarrow> R b c \<Longrightarrow> R a c"
    and step: "\<And>x s. x \<in> set xs \<Longrightarrow> R s (f x s)"
  shows "R s (fold f xs s)"
  using step
proof (induction xs arbitrary: s)
  case Nil
  then show ?case by (simp add: refl)
next
  case (Cons x xs)
  have a: "R s (f x s)" using Cons.prems by simp
  have b: "R (f x s) (fold f xs (f x s))" using Cons.prems by (intro Cons.IH) simp
  have "R s (fold f xs (f x s))" using trans [OF a b] .
  then show ?case by simp
qed

lemma for_each_rule:
  assumes refl: "\<And>s. R s s" and trans: "\<And>a b c. R a b \<Longrightarrow> R b c \<Longrightarrow> R a c"
    and step: "\<And>x s s'. x \<in> set xs \<Longrightarrow> f x s = Some s' \<Longrightarrow> R s s'"
  shows "for_each f xs s = Some s' \<Longrightarrow> R s s'"
  using step
proof (induction xs arbitrary: s)
  case Nil
  then show ?case by (simp add: refl)
next
  case (Cons x xs)
  from Cons.prems(1) obtain s1 where 1: "f x s = Some s1" and 2: "for_each f xs s1 = Some s'"
    by (auto split: option.splits)
  have a: "R s s1" using Cons.prems(2) [of x s s1] 1 by simp
  have b: "R s1 s'" using 2 Cons.prems(2) by (intro Cons.IH) auto
  show ?case using trans [OF a b] .
qed

lemma os_walk_rule:
  assumes refl: "\<And>s. R s s" and trans: "\<And>a b c. R a b \<Longrightarrow> R b c \<Longrightarrow> R a c"
    and body: "\<And>d dirs files s. prefix t d \<Longrightarrow> scandir (fs s) d = Some (dirs, files) \<Longrightarrow>
                 R s (body d dirs files s)"
  shows "prefix t d \<Longrightarrow> os_walk n body d st = Some st' \<Longrightarrow> R st st'"
proof (induction n arbitrary: d st st')
  case 0
  then show ?case by simp
next
  case (Suc n)
  show ?case
  proof (cases "scandir (fs st) d")
    case None
    with Suc.prems show ?thesis by (simp add: refl)
  next
    case (Some l)
    obtain dirs files where l: "l = (dirs, files)" by (cases l)
    with Some Suc.prems have fe:
      "for_each (\<lambda>x. os_walk n body (join d [x])) dirs (body d dirs files st) = Some st'"
      by simp
    have 1: "R st (body d dirs files st)" using body Suc.prems(1) Some l by simp
    have 2: "R (body d dirs files st) st'"
    proof (rule for_each_rule [where R = R, OF refl trans _ fe])
      fix x s s' assume "os_walk n body (join d [x]) s = Some s'"
      moreover have "prefix t (join d [x])" using Suc.prems(1) by (simp add: join_def)
      ultimately show "R s s'" using Suc.IH by blast
    qed (assumption)
    from 1 2 show ?thesis using trans by blast
  qed
qed

lemma frame_rel_refl: "frame_rel replica s s"
  by (simp add: frame_rel_def)

lemma frame_rel_trans:
  assumes "frame_rel replica a b" and "frame_rel replica b c"
  shows "frame_rel replica a c"
proof -
  have "map_option shallow (lookup (fs c) q) = map_option shallow (lookup (fs a) q)"
    if "prefix q replica" "path_exists (fs a) q" for q
  proof -
    from assms(1) that have ab: "map_option shallow (lookup (fs b) q) = map_option shallow (lookup (fs a) q)"
      by (simp add: frame_rel_def)
    with that(2) have "path_exists (fs b) q"
      by (cases "lookup (fs b) q") (auto simp: path_exists_def)
    with assms(2) that(1) ab show ?thesis by (simp add: frame_rel_def)
  qed
  with assms show ?thesis by (auto simp: frame_rel_def)
qed

lemma parallel_below: "q \<parallel> r \<Longrightarrow> prefix r t \<Longrightarrow> t \<parallel> q"
  by (metis parallel_def prefix_order.trans prefix_same_cases)

lemma frame_rel_logging: "frame_rel replica st (logging e st)"
  by (simp add: frame_rel_def)

lemma strict_prefix_prefix: "prefix q r \<Longrightarrow> strict_prefix r t \<Longrightarrow> strict_prefix q t"
  by (rule prefix_order.le_less_trans)

lemma put_ancestor_shallow:
  assumes "strict_prefix q t"
  shows "map_option shallow (lookup (put t n root) q) = map_option shallow (lookup root q)"
proof -
  from assms have "drop (length q) t \<noteq> []" by (auto simp: strict_prefix_def prefix_def)
  then show ?thesis
    using lookup_put_ancestor [OF assms, of n root] shallow_put by (cases "lookup root q") auto
qed

lemma del_ancestor_shallow:
  assumes "strict_prefix q t"
  shows "map_option shallow (lookup (del t root) q) = map_option shallow (lookup root q)"
proof -
  from assms have "drop (length q) t \<noteq> []" by (auto simp: strict_prefix_def prefix_def)
  then show ?thesis
    using lookup_del_ancestor [OF assms, of root] shallow_del by (cases "lookup root q") auto
qed

lemma frame_rel_put:
  assumes "strict_prefix replica t"
  shows "frame_rel replica st (logging e (st\<lparr>fs := put t n (fs st)\<rparr>))"
proof -
  have t: "prefix replica t" using assms by (simp add: strict_prefix_def)
  have "lookup (put t n (fs st)) q = lookup (fs st) q" if "q \<parallel> replica" for q
    using parallel_below [OF that t] by (rule lookup_put_parallel)
  moreover have "map_option shallow (lookup (put t n (fs st)) q) = map_option shallow (lookup (fs st) q)"
    if "prefix q replica" for q
    using strict_prefix_prefix [OF that assms] by (rule put_ancestor_shallow)
  ultimately show ?thesis by (simp add: frame_rel_def)
qed

lemma frame_rel_del:
  assumes "strict_prefix replica t"
  shows "frame_rel replica st (logging e (st\<lparr>fs := del t (fs st)\<rparr>))"
proof -
  have t: "prefix replica t" using assms by (simp add: strict_prefix_def)
  have "lookup (del t (fs st)) q = lookup (fs st) q" if "q \<parallel> replica" for q
    using parallel_below [OF that t] by (rule lookup_del_parallel)
  moreover have "map_option shallow (lookup (del t (fs st)) q) = map_option shallow (lookup (fs st) q)"
    if "prefix q replica" for q
    using strict_prefix_prefix [OF that assms] by (rule del_ancestor_shallow)
  ultimately show ?thesis by (simp add: frame_rel_def)
qed

lemma creates_parallel: "creates t new root root' \<Longrightarrow> t \<parallel> q \<Longrightarrow> lookup root' q = lookup root q"
  by (simp add: creates_def parallel_def)

lemma creates_ancestor:
  "creates t new root root' \<Longrightarrow> strict_prefix q t \<Longrightarrow> path_exists root q \<Longrightarrow>
     map_option shallow (lookup root' q) = map_option shallow (lookup root q)"
  by (simp add: creates_def)

lemma frame_rel_creates:
  assumes "strict_prefix replica t" and "creates t new (fs st) root'"
  shows "frame_rel replica st (logging e (st\<lparr>fs := root'\<rparr>))"
proof -
  have t: "prefix replica t" using assms by (simp add: strict_prefix_def)
  have "lookup root' q = lookup (fs st) q" if "q \<parallel> replica" for q
    using creates_parallel [OF assms(2) parallel_below [OF that t]] .
  moreover have "map_option shallow (lookup root' q) = map_option shallow (lookup (fs st) q)"
    if "prefix q replica" "path_exists (fs st) q" for q
    using creates_ancestor [OF assms(2) strict_prefix_prefix [OF that(1) assms(1)] that(2)] .
  ultimately show ?thesis by (simp add: frame_rel_def)
qed

lemma frame_mirror_dir:
  assumes "prefix replica rr"
  shows "frame_rel replica st (mirror_dir rr d st)"
proof -
  have p: "strict_prefix replica (rr @ [d])" using assms by (auto simp: strict_prefix_def)
  show ?thesis
    using mirror_dir_cases [of rr d st] frame_rel_creates [OF p, of _ st]
    by (auto simp: frame_rel_refl frame_rel_logging)
qed

lemma compute_md5_state:
  "snd (compute_md5 p st) = st \<or> (\<exists>e. is_error e \<and> snd (compute_md5 p st) = logging e st)"
  using compute_md5_cases [of st p] by auto

lemma frame_compute_md5: "frame_rel replica st (snd (compute_md5 p st))"
  using compute_md5_state [of p st] by (auto simp: frame_rel_refl frame_rel_logging)

lemma frame_copy_and_log:
  assumes "strict_prefix replica dst"
  shows "frame_rel replica st (copy_and_log src dst st)"
proof (cases "copy2 (fs st) src dst")
  case (Inl e)
  then show ?thesis by (simp add: copy_and_log_def frame_rel_logging)
next
  case (Inr root')
  define dst' where "dst' = (if isdir (fs st) dst then join dst (basename src) else dst)"
  from Inr have "copyfile (fs st) src dst' = Inr root'" by (simp add: copy2_def dst'_def)
  then obtain c w where "root' = put dst' (File c True w) (fs st)"
    using copyfile_Inr by blast
  moreover have "strict_prefix replica dst'"
    using assms prefix_order.less_le_trans [OF assms, of "dst @ basename src"]
    by (simp add: dst'_def join_def)
  ultimately show ?thesis using Inr by (simp add: copy_and_log_def frame_rel_put)
qed

lemma frame_sync_file:
  assumes "prefix replica rr"
  shows "frame_rel replica st (sync_file root rr f st)"
proof -
  have p: "strict_prefix replica (join rr [f])" using assms by (auto simp: join_def strict_prefix_def)
  obtain d1 st1 where 1: "compute_md5 (join root [f]) st = (d1, st1)" by force
  obtain d2 st2 where 2: "compute_md5 (join rr [f]) st1 = (d2, st2)" by force
  have a: "frame_rel replica st st1" using frame_compute_md5 [of replica st "join root [f]"] 1 by simp
  have b: "frame_rel replica st1 st2" using frame_compute_md5 [of replica st1 "join rr [f]"] 2 by simp
  have c: "frame_rel replica st st2" using a b by (rule frame_rel_trans)
  have d: "frame_rel replica st2 (copy_and_log (join root [f]) (join rr [f]) st2)"
    using p by (rule frame_copy_and_log)
  show ?thesis
    using 1 2 c frame_rel_trans [OF c d] frame_copy_and_log [OF p, of st "join root [f]"]
    by (simp add: sync_file_def Let_def)
qed

lemma frame_prune_file:
  assumes "prefix replica root"
  shows "frame_rel replica st (prune_file root sr f st)"
proof -
  have p: "strict_prefix replica (join root [f])" using assms by (auto simp: join_def strict_prefix_def)
  show ?thesis
  proof (cases "os_remove (fs st) (join root [f])")
    case (Inl e)
    then show ?thesis by (simp add: prune_file_def Let_def frame_rel_logging frame_rel_refl)
  next
    case (Inr root')
    then have "root' = del (join root [f]) (fs st)" using os_remove_Inr by blast
    with Inr p show ?thesis
      by (simp add: prune_file_def Let_def frame_rel_del frame_rel_refl)
  qed
qed

lemma frame_prune_dir:
  assumes "prefix replica root"
  shows "frame_rel replica st (prune_dir root sr d st)"
proof -
  have p: "strict_prefix replica (join root [d])" using assms by (auto simp: join_def strict_prefix_def)
  show ?thesis
  proof (cases "rmtree (fs st) (join root [d])")
    case (Inl er)
    obtain e r where er: "er = (e, r)" by (cases er)
    with Inl have "r = fs st \<or> (\<exists>n. r = put (join root [d]) n (fs st))"
      using rmtree_Inl by blast
    then have "frame_rel replica st (logging (Error_DirRemove (join root [d]) e) (st\<lparr>fs := r\<rparr>))"
      using p by (auto simp: frame_rel_put frame_rel_logging)
    with Inl er show ?thesis
      by (simp add: prune_dir_def Let_def frame_rel_refl)
  next
    case (Inr root')
    then have "root' = del (join root [d]) (fs st)" using rmtree_Inr by blast
    with Inr p show ?thesis
      by (simp add: prune_dir_def Let_def frame_rel_del frame_rel_refl)
  qed
qed

lemma frame_forward_body: "frame_rel replica st (forward_body source replica root dirs files st)"
proof -
  have p: "prefix replica (join replica (relpath root source))" by (simp add: join_def)
  show ?thesis
    unfolding forward_body_def Let_def
    by (intro frame_rel_trans [OF fold_rule [where R = "frame_rel replica"]
                                  fold_rule [where R = "frame_rel replica"]]
              frame_rel_refl frame_mirror_dir frame_sync_file p)
       (erule (1) frame_rel_trans)+
qed

lemma frame_reverse_body:
  assumes "prefix replica root"
  shows "frame_rel replica st (reverse_body source replica root dirs files st)"
  unfolding reverse_body_def Let_def
  by (intro frame_rel_trans [OF fold_rule [where R = "frame_rel replica"]
                                fold_rule [where R = "frame_rel replica"]]
            frame_rel_refl frame_prune_file frame_prune_dir assms)
     (erule (1) frame_rel_trans)+

lemma frame_forward_walk:
  "os_walk n (forward_body source replica) d st = Some st' \<Longrightarrow> frame_rel replica st st'"
  by (rule os_walk_rule [where R = "frame_rel replica" and t = d and d = d])
     (auto intro: frame_rel_refl frame_forward_body elim: frame_rel_trans)

lemma frame_reverse_walk:
  "prefix replica d \<Longrightarrow> os_walk n (reverse_body source replica) d st = Some st' \<Longrightarrow>
     frame_rel replica st st'"
  by (rule os_walk_rule [where R = "frame_rel replica" and t = replica and d = d])
     (auto intro: frame_rel_refl frame_reverse_body elim: frame_rel_trans)

lemma create_replica_cases:
  "create_replica replica st = Inr st \<and> path_exists (fs st) replica \<or>
   (\<exists>root'. creates replica (Dir [] True True) (fs st) root' \<and> lookup (fs st) replica = None \<and>
       create_replica replica st = Inr (logging (Info_ReplicaCreated replica) (st\<lparr>fs := root'\<rparr>))) \<or>
   (\<exists>e ev. makedirs (fs st) replica = Inl (e, fs st) \<and> \<not> path_exists (fs st) replica \<and> is_error ev \<and>
       create_replica replica st = Inl (e, logging ev st))"
proof (cases "path_exists (fs st) replica")
  case True
  then show ?thesis by (simp add: create_replica_def)
next
  case False
  show ?thesis
  proof (cases "makedirs (fs st) replica")
    case (Inl er)
    then obtain e where m: "makedirs (fs st) replica = Inl (e, fs st)"
      using makedirs_spec [of "fs st" replica] by (cases er) auto
    define ev where "ev = (if e = PermissionError then Error_ReplicaPermission replica
                           else Error_ReplicaCreate replica e)"
    have "is_error ev" by (simp add: ev_def)
    moreover have "create_replica replica st = Inl (e, logging ev st)"
      using False m by (simp add: create_replica_def ev_def)
    ultimately show ?thesis using m False by blast
  next
    case (Inr root')
    with False have "create_replica replica st =
        Inr (logging (Info_ReplicaCreated replica) (st\<lparr>fs := root'\<rparr>))"
      by (simp add: create_replica_def)
    moreover have "creates replica (Dir [] True True) (fs st) root' \<and> lookup (fs st) replica = None"
      using Inr makedirs_spec [of "fs st" replica] by simp
    ultimately show ?thesis by blast
  qed
qed

lemma frame_create_replica:
  "frame_rel replica st (final_state (create_replica replica st))"
proof -
  consider (same) "create_replica replica st = Inr st"
    | (made) root' where "creates replica (Dir [] True True) (fs st) root'" "lookup (fs st) replica = None"
        "create_replica replica st = Inr (logging (Info_ReplicaCreated replica) (st\<lparr>fs := root'\<rparr>))"
    | (err) e ev where "create_replica replica st = Inl (e, logging ev st)"
    using create_replica_cases [of replica st] by blast
  then show ?thesis
  proof cases
    case same
    then show ?thesis by (simp add: final_state_def frame_rel_refl)
  next
    case made
    have "lookup root' q = lookup (fs st) q" if "q \<parallel> replica" for q
      using creates_parallel [OF made(1)] that by (simp add: parallel_commute)
    moreover have "map_option shallow (lookup root' q) = map_option shallow (lookup (fs st) q)"
      if "prefix q replica" "path_exists (fs st) q" for q
    proof -
      from that made(2) have "q \<noteq> replica" by (auto simp: path_exists_def)
      with that(1) have "strict_prefix q replica" by (simp add: strict_prefix_def)
      then show ?thesis using creates_ancestor [OF made(1)] that(2) by blast
    qed
    ultimately show ?thesis using made(3) by (simp add: final_state_def frame_rel_def)
  next
    case err
    then show ?thesis by (simp add: final_state_def frame_rel_logging)
  qed
qed

lemma sync_folders_frame:
  assumes "sync_folders n source replica st = Some r"
  shows "frame_rel replica st (final_state r)"
proof (cases "create_replica replica st")
  case (Inl x)
  with assms have "r = Inl x" by (auto simp: sync_folders_def split: prod.splits)
  with Inl frame_create_replica [of replica st] show ?thesis by simp
next
  case (Inr st1)
  with frame_create_replica [of replica st] have 1: "frame_rel replica st st1"
    by (simp add: final_state_def)
  from assms Inr obtain st2 where
    2: "os_walk n (forward_body source replica) source st1 = Some st2" and
    3: "os_walk n (reverse_body source replica) replica st2 = Some (final_state r)"
    by (auto simp: sync_folders_def final_state_def split: option.splits)
  from 2 have "frame_rel replica st1 st2" by (rule frame_forward_walk)
  moreover from 3 have "frame_rel replica st2 (final_state r)"
    by (intro frame_reverse_walk [of replica replica]) auto
  ultimately show ?thesis using 1 frame_rel_trans by blast
qed

section \<open>The walks return\<close>

lemma size_child: "map_of es x = Some c \<Longrightarrow> size c < size (Dir es ls w)"
  by (induction es) (auto split: if_splits)

lemma size_update_le:
  "map_of es x = Some c \<Longrightarrow> size c' \<le> size c \<Longrightarrow>
     size (Dir (AList.update x c' es) ls w) \<le> size (Dir es ls w)"
  by (induction es) (auto split: if_splits)

lemma size_delete_le: "size (Dir (AList.delete x es) ls w) \<le> size (Dir es ls w)"
  by (induction es) (auto split: if_splits)

lemma size_put_le:
  "lookup m r = Some n0 \<Longrightarrow> size n' \<le> size n0 \<Longrightarrow> size (put r n' m) \<le> size m"
proof (induction r arbitrary: m)
  case Nil
  then show ?case by simp
next
  case (Cons x r)
  from Cons.prems(1) obtain es ls w c where m: "m = Dir es ls w" "map_of es x = Some c" "lookup c r = Some n0"
    by (auto simp: lookup_Cons split: node.splits option.splits)
  have "size (put r n' c) \<le> size c" using Cons.IH [OF m(3) Cons.prems(2)] .
  then have "size (Dir (AList.update x (put r n' c) es) ls w) \<le> size (Dir es ls w)"
    using m(2) by (rule size_update_le [rotated])
  with m show ?case by simp
qed

lemma size_del_le: "size (del r m) \<le> size m"
proof (induction r arbitrary: m)
  case Nil
  then show ?case by simp
next
  case (Cons x r)
  show ?case
  proof (cases m)
    case (File c rd w)
    then show ?thesis by simp
  next
    case (Dir es ls w)
    show ?thesis
    proof (cases "r = []")
      case True
      with Dir size_delete_le [of x es w] show ?thesis by simp
    next
      case False
      show ?thesis
      proof (cases "map_of es x")
        case None
        with Dir False show ?thesis by simp
      next
        case (Some c)
        have "size (Dir (AList.update x (del r c) es) ls w) \<le> size (Dir es ls w)"
          using Some Cons.IH [of c] by (rule size_update_le)
        with Dir False Some show ?thesis by simp
      qed
    qed
  qed
qed

lemma rm_entries_size:
  "rm_entries w es = Inl (e, es') \<Longrightarrow> size (Dir es' ls' w') \<le> size (Dir es ls' w')"
proof (induction w es arbitrary: e es' w' ls' rule: rm_entries.induct)
  case (1 w)
  then show ?case by simp
next
  case (2 w n c r fw es)
  then show ?case by (auto split: if_splits)
next
  case (3 w n ces cls cw es)
  show ?case
  proof (cases cls)
    case False
    with "3.prems" show ?thesis by simp
  next
    case ls: True
    show ?thesis
    proof (cases "rm_entries cw ces")
      case (Inl x)
      obtain e1 ces' where x: "x = (e1, ces')" by (cases x)
      with Inl "3.prems" ls have es': "es' = (n, Dir ces' cls cw) # es" by simp
      have "size (Dir ces' cls cw) \<le> size (Dir ces cls cw)"
        using "3.IH"(1) [OF _ Inl [unfolded x]] ls by simp
      with es' show ?thesis by simp
    next
      case (Inr u)
      show ?thesis
      proof (cases w)
        case True
        with Inr "3.prems" ls have "rm_entries w es = Inl (e, es')" by simp
        with "3.IH"(2) [OF _ Inr True] ls have "size (Dir es' ls' w') \<le> size (Dir es ls' w')"
          by simp
        then show ?thesis by simp
      next
        case False
        with Inr "3.prems" ls show ?thesis by auto
      qed
    qed
  qed
qed

lemma sz_put_le:
  assumes "lookup root t = Some n0" and "size n' \<le> size n0" and "\<not> strict_prefix t q"
  shows "sz (put t n' root) q \<le> sz root q"
proof -
  consider (par) "t \<parallel> q" | (eq) "q = t" | (anc) "strict_prefix q t"
    using assms(3) by (auto simp: parallel_def strict_prefix_def)
  then show ?thesis
  proof cases
    case par
    then show ?thesis by (simp add: sz_def lookup_put_parallel)
  next
    case eq
    have "t = [] \<or> isdir root (butlast t)"
    proof (cases "t = []")
      case False
      then have "t = butlast t @ [last t]" by simp
      with assms(1) have "path_exists root (butlast t @ [last t])" by (simp add: path_exists_def)
      then show ?thesis using isdir_prefix by blast
    qed simp
    then have "lookup (put t n' root) t = Some n'"
      using lookup_put_below [of t root n' "[]"] by simp
    with eq assms show ?thesis by (simp add: sz_def)
  next
    case anc
    then obtain r where r: "t = q @ r" by (auto simp: strict_prefix_def prefix_def)
    from assms(1) r obtain m where m: "lookup root q = Some m" "lookup m r = Some n0"
      by (auto simp: lookup_append split: option.splits)
    have "lookup (put t n' root) q = Some (put r n' m)"
      using lookup_put_ancestor [OF anc] m r by simp
    with m size_put_le [OF m(2) assms(2)] show ?thesis by (simp add: sz_def)
  qed
qed

lemma sz_del_le: "sz (del t root) q \<le> sz root q"
proof -
  consider (par) "t \<parallel> q" | (below) "prefix t q" "t \<noteq> []" | (nil) "t = []" | (anc) "strict_prefix q t"
    by (auto simp: parallel_def strict_prefix_def)
  then show ?thesis
  proof cases
    case par
    then show ?thesis by (simp add: sz_def lookup_del_parallel)
  next
    case below
    then show ?thesis using lookup_del_below [of t root] by (auto simp: sz_def prefix_def)
  next
    case nil
    then show ?thesis by simp
  next
    case anc
    show ?thesis using lookup_del_ancestor [OF anc, of root] size_del_le
      by (auto simp: sz_def split: option.splits)
  qed
qed

lemma sz_rmtree:
  assumes "rmtree root t = Inl (e, root')" and "\<not> strict_prefix t q"
  shows "sz root' q \<le> sz root q"
proof (cases "resolve t root")
  case (Inl e')
  with assms show ?thesis by (simp add: rmtree_def)
next
  case (Inr n)
  then have l: "lookup root t = Some n" by (simp add: resolve_lookup)
  show ?thesis
  proof (cases n)
    case (File c r w)
    with assms Inr show ?thesis by (simp add: rmtree_def)
  next
    case (Dir es ls w)
    show ?thesis
    proof (cases ls)
      case False
      with assms Inr Dir show ?thesis by (simp add: rmtree_def)
    next
      case ls: True
      show ?thesis
      proof (cases "rm_entries w es")
        case (Inl x)
        obtain e1 es' where x: "x = (e1, es')" by (cases x)
        with Inl Inr Dir assms ls have r: "root' = put t (Dir es' ls w) root"
          by (simp add: rmtree_def)
        have "size (Dir es' ls w) \<le> size n" using rm_entries_size [OF Inl [unfolded x]] Dir by simp
        with r show ?thesis using sz_put_le [OF l _ assms(2)] by simp
      next
        case (Inr u)
        have "size (Dir [] ls w) \<le> size n" using Dir by simp
        then have "sz (put t (Dir [] ls w) root) q \<le> sz root q"
          using sz_put_le [OF l _ assms(2)] by simp
        moreover from assms Inr Dir ls \<open>resolve t root = Inr n\<close>
        have "root' = put t (Dir [] ls w) root \<or> root' = root"
          by (auto simp: rmtree_def split: if_splits sum.splits node.splits)
        ultimately show ?thesis by auto
      qed
    qed
  qed
qed

lemma scandir_None: "scandir root d = None \<longleftrightarrow> \<not> listable root d"
  by (auto simp: scandir_def listable_def split: option.splits node.splits)

lemma walked_Nil [simp]: "walked root base []"
  by (simp add: walked_def)

lemma walked_Cons:
  "walked root base (x # p) \<longleftrightarrow> listable root base \<and> walked root (base @ [x]) p"
proof
  assume w: "walked root base (x # p)"
  have "listable root (base @ [])" using w unfolding walked_def by (metis list.distinct(1) prefix_bot.bot_less)
  moreover have "listable root ((base @ [x]) @ q)" if "strict_prefix q p" for q
  proof -
    from that have "strict_prefix (x # q) (x # p)" by (simp add: strict_prefix_def)
    then have "listable root (base @ x # q)" using w unfolding walked_def by blast
    then show ?thesis by simp
  qed
  ultimately show "listable root base \<and> walked root (base @ [x]) p" by (simp add: walked_def)
next
  assume a: "listable root base \<and> walked root (base @ [x]) p"
  show "walked root base (x # p)"
    unfolding walked_def
  proof (intro allI impI)
    fix q assume "strict_prefix q (x # p)"
    then consider "q = []" | q' where "q = x # q'" "strict_prefix q' p"
      by (cases q) (auto simp: strict_prefix_def)
    then show "listable root (base @ q)"
    proof cases
      case 1
      with a show ?thesis by simp
    next
      case 2
      with a have "listable root ((base @ [x]) @ q')" unfolding walked_def by blast
      with 2 show ?thesis by simp
    qed
  qed
qed

lemma walked_snoc:
  "walked root base (p @ [x]) \<longleftrightarrow> walked root base p \<and> listable root (base @ p)"
  by (induction p arbitrary: base) (auto simp: walked_Cons)

lemma walked_append: "walked root base (q @ p) \<longleftrightarrow> walked root base q \<and> (p = [] \<or> walked root (base @ q) p)"
proof (induction q arbitrary: base)
  case Nil
  then show ?case by auto
next
  case (Cons x q)
  show ?case
  proof (cases "p = []")
    case True
    then show ?thesis by simp
  next
    case False
    show ?thesis using Cons.IH [of "base @ [x]"] False by (auto simp: walked_Cons)
  qed
qed

lemma walked_cong:
  assumes "\<And>q. lookup a (base @ q) = lookup b (base @ q)"
  shows "walked a base p = walked b base p"
  unfolding walked_def using listable_cong [OF assms] by simp

lemma all_listable_walked:
  assumes "all_listable root base" and "path_exists root (base @ p)"
  shows "walked root base p"
  unfolding walked_def
proof (intro allI impI)
  fix q assume "strict_prefix q p"
  then obtain r where r: "p = q @ r" "r \<noteq> []" by (auto simp: strict_prefix_def prefix_def)
  with assms(2) have "isdir root (base @ q)" using isdir_prefix [of root "base @ q" r] by simp
  with assms(1) show "listable root (base @ q)" by (simp add: all_listable_def)
qed

lemma scandir_Some:
  assumes "scandir root d = Some (dirs, files)"
  shows "isdir root d"
    and "x \<in> set dirs \<longleftrightarrow> isdir root (d @ [x])"
    and "x \<in> set files \<longleftrightarrow> path_exists root (d @ [x]) \<and> \<not> isdir root (d @ [x])"
    and "distinct dirs" and "distinct files"
    and "listable root d"
proof -
  from assms obtain es ls w where l: "lookup root d = Some (Dir es ls w)" and ls: ls
    and dirs: "dirs = filter (\<lambda>n. isdir root (d @ [n])) (remdups (map fst es))"
    and files: "files = filter (\<lambda>n. \<not> isdir root (d @ [n])) (remdups (map fst es))"
    by (auto simp: scandir_def split: option.splits node.splits if_splits)
  show "isdir root d" using l by (simp add: isdir_def)
  show "listable root d" using l ls by (simp add: listable_def)
  have ex: "path_exists root (d @ [x]) \<longleftrightarrow> x \<in> fst ` set es"
    using l by (auto simp: path_exists_def lookup_snoc map_of_eq_None_iff)
  show "x \<in> set dirs \<longleftrightarrow> isdir root (d @ [x])"
    using ex isdir_exists [of root "d @ [x]"] by (auto simp: dirs)
  show "x \<in> set files \<longleftrightarrow> path_exists root (d @ [x]) \<and> \<not> isdir root (d @ [x])"
    using ex by (auto simp: files)
  show "distinct dirs" "distinct files" by (simp_all add: dirs files)
qed

lemma sz_child: "path_exists root (d @ [x]) \<Longrightarrow> sz root (d @ [x]) < sz root d"
proof -
  assume "path_exists root (d @ [x])"
  then obtain es ls w c where "lookup root d = Some (Dir es ls w)" "map_of es x = Some c"
    by (auto simp: path_exists_def lookup_snoc split: option.splits node.splits)
  then show ?thesis using size_child [of es x c w] by (simp add: sz_def lookup_snoc)
qed

lemma for_each_mono:
  assumes "\<And>x s s'. f x s = Some s' \<Longrightarrow> g x s = Some s'"
  shows "for_each f xs s = Some s' \<Longrightarrow> for_each g xs s = Some s'"
  by (induction xs arbitrary: s) (auto split: option.splits dest: assms)

lemma os_walk_Suc: "os_walk n body d st = Some st' \<Longrightarrow> os_walk (Suc n) body d st = Some st'"
proof (induction n arbitrary: d st st')
  case 0
  then show ?case by simp
next
  case (Suc n)
  show ?case
  proof (cases "scandir (fs st) d")
    case None
    with Suc.prems show ?thesis by simp
  next
    case (Some l)
    obtain dirs files where l: "l = (dirs, files)" by (cases l)
    from Suc.prems Some l have
      "for_each (\<lambda>x. os_walk n body (join d [x])) dirs (body d dirs files st) = Some st'" by simp
    then have "for_each (\<lambda>x. os_walk (Suc n) body (join d [x])) dirs (body d dirs files st) = Some st'"
      by (rule for_each_mono [rotated]) (rule Suc.IH)
    with Some l show ?thesis by simp
  qed
qed

lemma os_walk_mono:
  "os_walk n body d st = Some st' \<Longrightarrow> n \<le> m \<Longrightarrow> os_walk m body d st = Some st'"
proof (induction m)
  case 0
  then show ?case by simp
next
  case (Suc m)
  show ?case
  proof (cases "n = Suc m")
    case True
    with Suc.prems show ?thesis by simp
  next
    case False
    with Suc.prems have "n \<le> m" by simp
    with Suc.IH Suc.prems(1) have "os_walk m body d st = Some st'" by simp
    then show ?thesis by (rule os_walk_Suc)
  qed
qed

lemma shrinks_refl: "shrinks t d s s"
  by (simp add: shrinks_def)

lemma shrinks_trans: "shrinks t d a b \<Longrightarrow> shrinks t d b c \<Longrightarrow> shrinks t d a c"
  unfolding shrinks_def by (meson le_trans)

lemma strict_prefix_snoc_trans: "strict_prefix (d @ [x] @ [y]) q \<Longrightarrow> strict_prefix (d @ [x]) q"
  by (metis append.assoc prefixI prefix_order.le_less_trans)

lemma os_walk_terminates:
  assumes body: "\<And>d dirs files s. prefix t d \<Longrightarrow> shrinks t d s (body d dirs files s)"
  shows "prefix t d \<Longrightarrow> sz (fs st) d < n \<Longrightarrow>
     \<exists>st'. os_walk n body d st = Some st' \<and> shrinks t d st st'"
proof (induction n arbitrary: d st)
  case 0
  then show ?case by simp
next
  case (Suc n)
  show ?case
  proof (cases "scandir (fs st) d")
    case None
    then show ?thesis by (simp add: shrinks_refl)
  next
    case (Some l)
    obtain dirs files where l: "l = (dirs, files)" by (cases l)
    note sc = scandir_Some [OF Some [unfolded l]]
    define st1 where "st1 = body d dirs files st"
    have b: "shrinks t d st st1" unfolding st1_def using Suc.prems(1) by (rule body)
    have inner: "\<exists>s'. for_each (\<lambda>x. os_walk n body (join d [x])) ds s = Some s' \<and> shrinks t d st s'"
      if "set ds \<subseteq> set dirs" "shrinks t d st s" for ds s
      using that
    proof (induction ds arbitrary: s)
      case Nil
      then show ?case by simp
    next
      case (Cons x ds)
      have pt: "prefix t (d @ [x])" using Suc.prems(1) by simp
      have "sz (fs s) (d @ [x]) \<le> sz (fs st) (d @ [x])"
        using Cons.prems(2) pt unfolding shrinks_def by (auto simp: strict_prefix_def)
      also have "\<dots> < sz (fs st) d"
        using sc(2) [of x] Cons.prems(1) isdir_exists sz_child by auto
      finally have "sz (fs s) (d @ [x]) < n" using Suc.prems(2) by simp
      from Suc.IH [OF pt this] obtain s1 where
        w: "os_walk n body (d @ [x]) s = Some s1" and s1: "shrinks t (d @ [x]) s s1" by blast
      have "shrinks t d s s1"
        unfolding shrinks_def
      proof (intro allI impI)
        fix q assume q: "prefix t q \<and> (\<forall>y. \<not> strict_prefix (d @ [y]) q)"
        then have "\<forall>y. \<not> strict_prefix ((d @ [x]) @ [y]) q"
          using strict_prefix_snoc_trans [of d x _ q] by auto
        with q s1 show "sz (fs s1) q \<le> sz (fs s) q" unfolding shrinks_def by blast
      qed
      with Cons.prems(2) have "shrinks t d st s1" using shrinks_trans by blast
      with Cons.IH [of s1] Cons.prems(1) obtain s' where
        "for_each (\<lambda>x. os_walk n body (join d [x])) ds s1 = Some s'" "shrinks t d st s'" by auto
      with w show ?case by (simp add: join_def)
    qed
    from inner [of dirs st1] b obtain s' where
      "for_each (\<lambda>x. os_walk n body (join d [x])) dirs st1 = Some s'" "shrinks t d st s'" by auto
    with Some l show ?thesis by (simp add: st1_def)
  qed
qed

lemma parallel_above: "s \<parallel> r \<Longrightarrow> prefix s q \<Longrightarrow> q \<parallel> r"
  using parallel_below [of r s q] by (simp add: parallel_commute)

lemma shrinks_frame:
  assumes "source \<parallel> replica" and "frame_rel replica st st'"
  shows "shrinks source d st st'"
proof -
  have "sz (fs st') q = sz (fs st) q" if "prefix source q" for q
    using assms(2) parallel_above [OF assms(1) that] by (simp add: frame_rel_def sz_def)
  then show ?thesis by (simp add: shrinks_def)
qed

lemma shrinks_prune_file: "shrinks t d st (prune_file d sr f st)"
proof (cases "os_remove (fs st) (join d [f])")
  case (Inl e)
  then show ?thesis by (simp add: prune_file_def Let_def shrinks_def)
next
  case (Inr root')
  then have "root' = del (join d [f]) (fs st)" using os_remove_Inr by blast
  with Inr show ?thesis by (simp add: prune_file_def Let_def shrinks_def sz_del_le)
qed

lemma shrinks_prune_dir: "shrinks t d st (prune_dir d sr x st)"
proof (cases "rmtree (fs st) (join d [x])")
  case (Inl er)
  obtain e r where er: "er = (e, r)" by (cases er)
  have "sz r q \<le> sz (fs st) q" if "\<not> strict_prefix (d @ [x]) q" for q
    using sz_rmtree [OF Inl [unfolded er join_def] that] .
  with Inl er show ?thesis by (simp add: prune_dir_def Let_def shrinks_def)
next
  case (Inr root')
  then have "root' = del (join d [x]) (fs st)" using rmtree_Inr by blast
  with Inr show ?thesis by (simp add: prune_dir_def Let_def shrinks_def sz_del_le)
qed

lemma shrinks_reverse_body: "shrinks t d st (reverse_body source replica d dirs files st)"
  unfolding reverse_body_def Let_def
  by (intro shrinks_trans [OF fold_rule [where R = "shrinks t d"]
                              fold_rule [where R = "shrinks t d"]]
            shrinks_refl shrinks_prune_file shrinks_prune_dir)
     (erule (1) shrinks_trans)+

lemma forward_walk_terminates:
  assumes "source \<parallel> replica" and "sz (fs st) source < n"
  shows "\<exists>st'. os_walk n (forward_body source replica) source st = Some st'"
proof -
  have "\<exists>st'. os_walk n (forward_body source replica) source st = Some st' \<and>
          shrinks source source st st'"
    by (rule os_walk_terminates [OF _ _ assms(2)])
       (simp_all add: shrinks_frame [OF assms(1)] frame_forward_body)
  then show ?thesis by blast
qed

lemma reverse_walk_terminates:
  assumes "sz (fs st) replica < n"
  shows "\<exists>st'. os_walk n (reverse_body source replica) replica st = Some st'"
proof -
  have "\<exists>st'. os_walk n (reverse_body source replica) replica st = Some st' \<and>
          shrinks replica replica st st'"
    by (rule os_walk_terminates [OF _ _ assms]) (simp_all add: shrinks_reverse_body)
  then show ?thesis by blast
qed


lemma sync_folders_terminates:
  assumes "source \<parallel> replica"
  shows "\<exists>n r. sync_folders n source replica st = Some r"
proof (cases "create_replica replica st")
  case (Inl x)
  then show ?thesis by (auto simp: sync_folders_def split: prod.splits)
next
  case (Inr st1)
  obtain n1 st2 where 2: "os_walk n1 (forward_body source replica) source st1 = Some st2"
    using forward_walk_terminates [OF assms lessI, of st1] by blast
  obtain n2 st3 where 3: "os_walk n2 (reverse_body source replica) replica st2 = Some st3"
    using reverse_walk_terminates [OF lessI, of st2 replica source] by blast
  have "os_walk (max n1 n2) (forward_body source replica) source st1 = Some st2"
    using os_walk_mono [OF 2] by simp
  moreover have "os_walk (max n1 n2) (reverse_body source replica) replica st2 = Some st3"
    using os_walk_mono [OF 3] by simp
  ultimately have "sync_folders (max n1 n2) source replica st = Some (Inr st3)"
    using Inr by (simp add: sync_folders_def)
  then show ?thesis by blast
qed

section \<open>The forward pass mirrors every source entry\<close>

lemma frame_rel_clean: "frame_rel replica st st' \<Longrightarrow> clean st' \<Longrightarrow> clean st"
  by (auto simp: frame_rel_def clean_def)

lemma frame_rel_source:
  "source \<parallel> replica \<Longrightarrow> frame_rel replica st st' \<Longrightarrow>
     lookup (fs st') (source @ p) = lookup (fs st) (source @ p)"
  using parallel_above [of source replica "source @ p"] by (simp add: frame_rel_def)

lemma fwd_rel_refl: "fwd_rel source replica s s"
  by (simp add: fwd_rel_def frame_rel_refl)

lemma fwd_rel_trans:
  "fwd_rel source replica a b \<Longrightarrow> fwd_rel source replica b c \<Longrightarrow> fwd_rel source replica a c"
  unfolding fwd_rel_def using frame_rel_trans frame_rel_clean by blast

lemma creates_cases:
  assumes "creates t new root root'"
  obtains (other) "\<not> prefix q t" "lookup root' q = lookup root q"
        | (anc) "strict_prefix q t" "isdir root' q"
            "path_exists root q \<longrightarrow> map_option shallow (lookup root' q) = map_option shallow (lookup root q)"
            "\<not> path_exists root q \<longrightarrow> listable root' q"
        | (self) "q = t" "lookup root' q = Some new"
  using assms unfolding creates_def strict_prefix_def by blast

lemma shallow_File_iff: "shallow n = File c r w \<longleftrightarrow> n = File c r w"
  by (cases n) (auto simp: shallow_def)

lemma shallow_eq_FileD:
  "map_option shallow a = map_option shallow (Some (File c r w)) \<Longrightarrow> a = Some (File c r w)"
  by (cases a) (auto simp: shallow_def split: node.splits)

lemma creates_source:
  assumes "source \<parallel> replica" "prefix replica t" "creates t new root root'"
  shows "lookup root' (source @ p) = lookup root (source @ p)"
proof -
  have "source @ p \<parallel> replica" using assms(1) by (rule parallel_above) simp
  then have "t \<parallel> source @ p" using assms(2) by (rule parallel_below)
  with assms(3) show ?thesis by (rule creates_parallel)
qed

lemma mirrored_creates_dir:
  assumes par: "source \<parallel> replica" and t: "prefix replica t"
    and c: "creates t (Dir [] True True) root root'" and none: "lookup root t = None"
    and m: "mirrored root source replica p"
  shows "mirrored root' source replica p"
proof -
  have src: "lookup root' (source @ p) = lookup root (source @ p)"
    using par t c by (rule creates_source)
  show ?thesis
  proof (cases "lookup root (source @ p)")
    case None
    with src show ?thesis by (simp add: mirrored_def)
  next
    case (Some n)
    show ?thesis
    proof (cases n)
      case (File cs r w)
      with m Some obtain c' w' where r: "r" and
        rep: "lookup root (replica @ p) = Some (File c' True w')" "md5_hex c' = md5_hex cs"
        by (auto simp: mirrored_def split: option.splits node.splits)
      from c have "lookup root' (replica @ p) = lookup root (replica @ p)"
      proof (cases rule: creates_cases [where q = "replica @ p"])
        case anc
        with rep(1) have "lookup root' (replica @ p) = Some (File c' True w')"
          using shallow_eq_FileD [of "lookup root' (replica @ p)"] by (simp add: path_exists_def)
        with anc(2) show ?thesis by (simp add: isdir_def)
      next
        case self
        with none rep show ?thesis by simp
      qed
      with src Some File r rep show ?thesis by (simp add: mirrored_def)
    next
      case (Dir es ls w)
      with m Some have ex: "path_exists root (replica @ p)" by (simp add: mirrored_def)
      from c have "path_exists root' (replica @ p)"
      proof (cases rule: creates_cases [where q = "replica @ p"])
        case other
        with ex show ?thesis by (simp add: path_exists_def)
      next
        case anc
        then show ?thesis by (simp add: isdir_exists)
      next
        case self
        then show ?thesis by (simp add: path_exists_def)
      qed
      with src Some Dir show ?thesis by (simp add: mirrored_def)
    qed
  qed
qed

lemma mirrored_creates_file:
  assumes par: "source \<parallel> replica"
    and c: "creates (replica @ p0) (File c0 True w0) root root'"
    and s0: "lookup root (source @ p0) = Some (File c0 True w0)"
    and m: "mirrored root source replica p"
  shows "mirrored root' source replica p"
proof -
  have src: "lookup root' (source @ p) = lookup root (source @ p)"
    using par _ c by (rule creates_source) simp
  show ?thesis
  proof (cases "lookup root (source @ p)")
    case None
    with src show ?thesis by (simp add: mirrored_def)
  next
    case (Some n)
    show ?thesis
    proof (cases n)
      case (File cs r w)
      with m Some obtain c' w' where r: "r" and
        rep: "lookup root (replica @ p) = Some (File c' True w')" "md5_hex c' = md5_hex cs"
        by (auto simp: mirrored_def split: option.splits node.splits)
      from c have "\<exists>c'' w''. lookup root' (replica @ p) = Some (File c'' True w'') \<and> md5_hex c'' = md5_hex cs"
      proof (cases rule: creates_cases [where q = "replica @ p"])
        case other
        with rep show ?thesis by simp
      next
        case anc
        with rep(1) have "lookup root' (replica @ p) = Some (File c' True w')"
          using shallow_eq_FileD [of "lookup root' (replica @ p)"] by (simp add: path_exists_def)
        with anc(2) show ?thesis by (simp add: isdir_def)
      next
        case self
        then have "p = p0" by simp
        with s0 Some File have "cs = c0" by simp
        with self show ?thesis by simp
      qed
      with src Some File r show ?thesis by (auto simp: mirrored_def)
    next
      case (Dir es ls w)
      with m Some have ex: "path_exists root (replica @ p)" by (simp add: mirrored_def)
      from c have "path_exists root' (replica @ p)"
      proof (cases rule: creates_cases [where q = "replica @ p"])
        case other
        with ex show ?thesis by (simp add: path_exists_def)
      next
        case anc
        then show ?thesis by (simp add: isdir_exists)
      next
        case self
        then show ?thesis by (simp add: path_exists_def)
      qed
      with src Some Dir show ?thesis by (simp add: mirrored_def)
    qed
  qed
qed

lemma isfile_creates:
  assumes c: "creates t new root root'" and f: "isfile root' q"
  shows "isfile root q \<or> q = t"
  using c
proof (cases rule: creates_cases [where q = q])
  case other
  with f show ?thesis by (simp add: isfile_def)
next
  case anc
  with f show ?thesis by (auto simp: isfile_def isdir_def split: option.splits node.splits)
next
  case self
  then show ?thesis by simp
qed

lemma conflict_free_creates_dir:
  assumes par: "source \<parallel> replica" and t: "prefix replica t"
    and c: "creates t (Dir [] True True) root root'" and cf: "conflict_free root source replica"
  shows "conflict_free root' source replica"
  unfolding conflict_free_def
proof (intro allI notI, elim conjE)
  fix p assume d: "isdir root' (source @ p)" and f: "isfile root' (replica @ p)"
  from d have "isdir root (source @ p)" using creates_source [OF par t c, of p] by (simp add: isdir_def)
  moreover from isfile_creates [OF c f] have "isfile root (replica @ p)"
  proof
    assume "replica @ p = t"
    with c f show ?thesis by (simp add: creates_def isfile_def)
  qed
  ultimately show False using cf by (simp add: conflict_free_def)
qed

lemma conflict_free_creates_file:
  assumes par: "source \<parallel> replica"
    and c: "creates (replica @ p0) (File c0 True w0) root root'"
    and s0: "lookup root (source @ p0) = Some (File c0 True w0)"
    and cf: "conflict_free root source replica"
  shows "conflict_free root' source replica"
  unfolding conflict_free_def
proof (intro allI notI, elim conjE)
  fix p assume d: "isdir root' (source @ p)" and f: "isfile root' (replica @ p)"
  from d have d': "isdir root (source @ p)"
    using creates_source [OF par _ c, of p] by (simp add: isdir_def)
  from isfile_creates [OF c f] show False
  proof
    assume "isfile root (replica @ p)"
    with d' cf show False by (simp add: conflict_free_def)
  next
    assume "replica @ p = replica @ p0"
    with s0 d' show False by (simp add: isdir_def)
  qed
qed

lemma all_listable_creates:
  assumes c: "creates t new root root'"
    and new: "\<And>es ls w. new = Dir es ls w \<Longrightarrow> ls"
    and al: "all_listable root base"
  shows "all_listable root' base"
  unfolding all_listable_def
proof (intro allI impI)
  fix p assume d: "isdir root' (base @ p)"
  from c show "listable root' (base @ p)"
  proof (cases rule: creates_cases [where q = "base @ p"])
    case other
    with d have "isdir root (base @ p)" by (simp add: isdir_def)
    with al have "listable root (base @ p)" by (simp add: all_listable_def)
    with other show ?thesis by (simp add: listable_def)
  next
    case anc
    show ?thesis
    proof (cases "path_exists root (base @ p)")
      case True
      with anc have sh: "map_option shallow (lookup root' (base @ p)) =
          map_option shallow (lookup root (base @ p))" by simp
      with d have "isdir root (base @ p)"
        by (cases "lookup root (base @ p)"; cases "lookup root' (base @ p)")
           (auto simp: isdir_def shallow_def split: node.splits)
      with al have "listable root (base @ p)" by (simp add: all_listable_def)
      with sh show ?thesis using listable_shallow by blast
    next
      case False
      with anc show ?thesis by simp
    qed
  next
    case self
    with d new show ?thesis
      by (cases new) (auto simp: isdir_def listable_def)
  qed
qed

lemma fold_establish:
  assumes refl: "\<And>s. R s s" and trans: "\<And>a b c. R a b \<Longrightarrow> R b c \<Longrightarrow> R a c"
    and rel: "\<And>x s. R s (f x s)"
    and est: "\<And>x s. x \<in> set xs \<Longrightarrow> R s0 s \<Longrightarrow> G (f x s) \<Longrightarrow> P x (f x s)"
    and stab: "\<And>y a b. R a b \<Longrightarrow> G b \<Longrightarrow> P y a \<Longrightarrow> P y b"
    and guard: "\<And>a b. R a b \<Longrightarrow> G b \<Longrightarrow> G a"
  shows "R s0 s \<Longrightarrow> G (fold f xs s) \<Longrightarrow> x \<in> set xs \<Longrightarrow> P x (fold f xs s)"
  using est
proof (induction xs arbitrary: s)
  case Nil
  then show ?case by simp
next
  case (Cons y ys)
  have r1: "R s (f y s)" by (rule rel)
  have r01: "R s0 (f y s)" using trans [OF Cons.prems(1) r1] .
  have r2: "R (f y s) (fold f ys (f y s))"
    by (rule fold_rule [where R = R, OF refl trans rel])
  have g: "G (fold f ys (f y s))" using Cons.prems(2) by simp
  show ?case
  proof (cases "x \<in> set ys")
    case True
    have "P x (fold f ys (f y s))"
      using r01 g True Cons.prems(4) by (intro Cons.IH) auto
    then show ?thesis by simp
  next
    case False
    with Cons.prems(3) have xy: "x = y" by simp
    have "G (f y s)" using guard [OF r2 g] .
    then have "P y (f y s)" using Cons.prems(4) [of y s] Cons.prems(1) by simp
    then have "P y (fold f ys (f y s))" using stab [OF r2 g] by blast
    with xy show ?thesis by simp
  qed
qed

lemma for_each_establish:
  assumes refl: "\<And>s. R s s" and trans: "\<And>a b c. R a b \<Longrightarrow> R b c \<Longrightarrow> R a c"
    and rel: "\<And>x s s'. f x s = Some s' \<Longrightarrow> R s s'"
    and est: "\<And>x s s'. x \<in> set xs \<Longrightarrow> R s0 s \<Longrightarrow> f x s = Some s' \<Longrightarrow> G s' \<Longrightarrow> P x s'"
    and stab: "\<And>y a b. R a b \<Longrightarrow> G b \<Longrightarrow> P y a \<Longrightarrow> P y b"
    and guard: "\<And>a b. R a b \<Longrightarrow> G b \<Longrightarrow> G a"
  shows "R s0 s \<Longrightarrow> for_each f xs s = Some s' \<Longrightarrow> G s' \<Longrightarrow> x \<in> set xs \<Longrightarrow> P x s'"
  using est
proof (induction xs arbitrary: s)
  case Nil
  then show ?case by simp
next
  case (Cons y ys)
  from Cons.prems(2) obtain s1 where 1: "f y s = Some s1" and 2: "for_each f ys s1 = Some s'"
    by (auto split: option.splits)
  have r1: "R s s1" using rel [OF 1] .
  have r01: "R s0 s1" using trans [OF Cons.prems(1) r1] .
  have r2: "R s1 s'"
    using 2 by (rule for_each_rule [where R = R, OF refl trans rel, rotated -1])
  show ?case
  proof (cases "x \<in> set ys")
    case True
    show ?thesis
      using r01 2 Cons.prems(3) True Cons.prems(5) by (intro Cons.IH) auto
  next
    case False
    with Cons.prems(4) have xy: "x = y" by simp
    have "G s1" using guard [OF r2 Cons.prems(3)] .
    then have "P y s1" using Cons.prems(5) [of y s s1] Cons.prems(1) 1 by simp
    then have "P y s'" using stab [OF r2 Cons.prems(3)] by blast
    with xy show ?thesis by simp
  qed
qed

lemma fwd_rel_mirror_dir:
  assumes par: "source \<parallel> replica" and rr: "prefix replica rr"
  shows "fwd_rel source replica st (mirror_dir rr d st)"
proof -
  have p: "prefix replica (rr @ [d])" using rr by simp
  have fr: "frame_rel replica st (mirror_dir rr d st)" using rr by (rule frame_mirror_dir)
  consider (same) "mirror_dir rr d st = st"
    | (made) root' where "creates (rr @ [d]) (Dir [] True True) (fs st) root'"
        "lookup (fs st) (rr @ [d]) = None"
        "mirror_dir rr d st = logging (Info_DirCreated (rr @ [d])) (st\<lparr>fs := root'\<rparr>)"
    | (err) e where "mirror_dir rr d st = logging (Error_DirCreate (rr @ [d]) e) st"
    using mirror_dir_cases [of rr d st] by blast
  then show ?thesis
  proof cases
    case same
    then show ?thesis by (simp add: fwd_rel_refl)
  next
    case made
    show ?thesis
      unfolding fwd_rel_def using fr made
      by (auto intro: mirrored_creates_dir [OF par p made(1,2)]
                      conflict_free_creates_dir [OF par p made(1)]
                      all_listable_creates [OF made(1)])
  next
    case err
    with fr show ?thesis by (simp add: fwd_rel_def)
  qed
qed

lemma fwd_rel_sync_file:
  assumes par: "source \<parallel> replica"
  shows "fwd_rel source replica st (sync_file (source @ q) (replica @ q) f st)"
proof -
  let ?st' = "sync_file (source @ q) (replica @ q) f st"
  have fr: "frame_rel replica st ?st'" by (rule frame_sync_file) simp
  have "(\<forall>p. mirrored (fs st) source replica p \<longrightarrow> mirrored (fs ?st') source replica p) \<and>
        (conflict_free (fs st) source replica \<longrightarrow> conflict_free (fs ?st') source replica) \<and>
        (all_listable (fs st) replica \<longrightarrow> all_listable (fs ?st') replica)"
    if cl: "clean ?st'"
  proof -
    from sync_file_clean [OF cl] obtain c w where
      s: "lookup (fs st) ((source @ q) @ [f]) = Some (File c True w)" and
      alt: "?st' = st \<or>
        (\<exists>root'. creates ((replica @ q) @ [f]) (File c True w) (fs st) root' \<and>
            ?st' = logging (Info_Synchronizing ((source @ q) @ [f]) ((replica @ q) @ [f])) (st\<lparr>fs := root'\<rparr>))"
      by blast
    from alt show ?thesis
    proof
      assume "?st' = st"
      then show ?thesis by simp
    next
      assume "\<exists>root'. creates ((replica @ q) @ [f]) (File c True w) (fs st) root' \<and>
            ?st' = logging (Info_Synchronizing ((source @ q) @ [f]) ((replica @ q) @ [f])) (st\<lparr>fs := root'\<rparr>)"
      then obtain root' where c: "creates (replica @ (q @ [f])) (File c True w) (fs st) root'"
        and e: "fs ?st' = root'" by auto
      from s have s': "lookup (fs st) (source @ (q @ [f])) = Some (File c True w)" by simp
      show ?thesis
        unfolding e
        using mirrored_creates_file [OF par c s'] conflict_free_creates_file [OF par c s']
              all_listable_creates [OF c, of replica]
        by blast
    qed
  qed
  with fr show ?thesis by (simp add: fwd_rel_def)
qed

lemma fwd_rel_forward_body:
  assumes par: "source \<parallel> replica"
  shows "fwd_rel source replica st (forward_body source replica (source @ q) dirs files st)"
proof -
  have rp: "join replica (relpath (source @ q) source) = replica @ q"
    by (simp add: join_def relpath_def)
  have 1: "fwd_rel source replica st (fold (mirror_dir (replica @ q)) dirs st)"
    by (rule fold_rule [where R = "fwd_rel source replica"])
       (auto intro: fwd_rel_refl fwd_rel_mirror_dir [OF par] elim: fwd_rel_trans)
  have 2: "fwd_rel source replica s (fold (sync_file (source @ q) (replica @ q)) files s)" for s
    by (rule fold_rule [where R = "fwd_rel source replica"])
       (auto intro: fwd_rel_refl fwd_rel_sync_file [OF par] elim: fwd_rel_trans)
  show ?thesis
    unfolding forward_body_def Let_def rp using fwd_rel_trans [OF 1 2] .
qed

lemma fwd_rel_walk:
  assumes par: "source \<parallel> replica"
  shows "os_walk n (forward_body source replica) (source @ q) st = Some st' \<Longrightarrow>
     fwd_rel source replica st st'"
proof (rule os_walk_rule [where R = "fwd_rel source replica" and t = source and d = "source @ q"])
  fix d dirs files s assume "prefix source d"
  then obtain q' where "d = source @ q'" by (auto simp: prefix_def)
  then show "fwd_rel source replica s (forward_body source replica d dirs files s)"
    using fwd_rel_forward_body [OF par] by simp
qed (auto intro: fwd_rel_refl elim: fwd_rel_trans)

lemma mirrored_None: "lookup root (source @ p) = None \<Longrightarrow> mirrored root source replica p"
  by (simp add: mirrored_def)

lemma lookup_below_nondir:
  "\<not> isdir root d \<Longrightarrow> p \<noteq> [] \<Longrightarrow> lookup root (d @ p) = None"
  by (cases p) (auto simp: isdir_def lookup_append split: option.splits node.splits)

lemma fwd_rel_clean: "fwd_rel source replica a b \<Longrightarrow> clean b \<Longrightarrow> clean a"
  unfolding fwd_rel_def using frame_rel_clean by blast

lemma fwd_rel_mirrored:
  "fwd_rel source replica a b \<Longrightarrow> clean b \<Longrightarrow> mirrored (fs a) source replica p \<Longrightarrow>
     mirrored (fs b) source replica p"
  by (simp add: fwd_rel_def)

lemma fwd_rel_source:
  "source \<parallel> replica \<Longrightarrow> fwd_rel source replica a b \<Longrightarrow>
     lookup (fs b) (source @ p) = lookup (fs a) (source @ p)"
  unfolding fwd_rel_def using frame_rel_source by blast

lemma mirror_dir_establishes:
  "clean (mirror_dir rr d st) \<Longrightarrow> path_exists (fs (mirror_dir rr d st)) (rr @ [d])"
  using mirror_dir_cases [of rr d st] by (auto simp: creates_def path_exists_def)

lemma sync_file_establishes:
  assumes par: "source \<parallel> replica" and cl: "clean (sync_file (source @ q) (replica @ q) f st)"
  shows "mirrored (fs (sync_file (source @ q) (replica @ q) f st)) source replica (q @ [f])"
proof -
  let ?st' = "sync_file (source @ q) (replica @ q) f st"
  have src: "lookup (fs ?st') (source @ q @ [f]) = lookup (fs st) (source @ q @ [f])"
    using fwd_rel_source [OF par fwd_rel_sync_file [OF par]] .
  from sync_file_clean [OF cl] obtain c w where
    s: "lookup (fs st) ((source @ q) @ [f]) = Some (File c True w)" and
    alt: "?st' = st \<and> (\<exists>c' w'. lookup (fs st) ((replica @ q) @ [f]) = Some (File c' True w') \<and>
              md5_hex c' = md5_hex c) \<or>
      (\<exists>root'. creates ((replica @ q) @ [f]) (File c True w) (fs st) root' \<and>
          ?st' = logging (Info_Synchronizing ((source @ q) @ [f]) ((replica @ q) @ [f])) (st\<lparr>fs := root'\<rparr>))"
    by blast
  from alt show ?thesis
  proof
    assume "?st' = st \<and> (\<exists>c' w'. lookup (fs st) ((replica @ q) @ [f]) = Some (File c' True w') \<and>
              md5_hex c' = md5_hex c)"
    with s show ?thesis by (auto simp: mirrored_def)
  next
    assume "\<exists>root'. creates ((replica @ q) @ [f]) (File c True w) (fs st) root' \<and>
          ?st' = logging (Info_Synchronizing ((source @ q) @ [f]) ((replica @ q) @ [f])) (st\<lparr>fs := root'\<rparr>)"
    then obtain root' where "lookup root' (replica @ q @ [f]) = Some (File c True w)"
      and e: "fs ?st' = root'" by (auto simp: creates_def)
    with s src show ?thesis by (simp add: mirrored_def)
  qed
qed

lemma forward_body_establishes:
  assumes par: "source \<parallel> replica"
    and sc: "scandir (fs st) (source @ q) = Some (dirs, files)"
    and cl: "clean (forward_body source replica (source @ q) dirs files st)"
  shows "mirrored (fs (forward_body source replica (source @ q) dirs files st)) source replica (q @ [x])"
proof -
  let ?R = "fwd_rel source replica"
  let ?P = "\<lambda>x s. mirrored (fs s) source replica (q @ [x])"
  define sa where "sa = fold (mirror_dir (replica @ q)) dirs st"
  define sb where "sb = fold (sync_file (source @ q) (replica @ q)) files sa"
  have rp: "join replica (relpath (source @ q) source) = replica @ q"
    by (simp add: join_def relpath_def)
  have sb: "forward_body source replica (source @ q) dirs files st = sb"
    by (simp add: forward_body_def Let_def rp sa_def sb_def)
  have Ra: "?R st sa" unfolding sa_def
    by (rule fold_rule [where R = ?R])
       (auto intro: fwd_rel_refl fwd_rel_mirror_dir [OF par] elim: fwd_rel_trans)
  have Rb: "?R sa sb" unfolding sb_def
    by (rule fold_rule [where R = ?R])
       (auto intro: fwd_rel_refl fwd_rel_sync_file [OF par] elim: fwd_rel_trans)
  have clb: "clean sb" using cl sb by simp
  have cla: "clean sa" using fwd_rel_clean [OF Rb clb] .
  have src: "lookup (fs sb) (source @ p) = lookup (fs st) (source @ p)" for p
    using fwd_rel_source [OF par fwd_rel_trans [OF Ra Rb]] .
  note scs = scandir_Some [OF sc]
  consider (none) "\<not> path_exists (fs st) ((source @ q) @ [x])"
    | (sub) "x \<in> set dirs" | (reg) "x \<in> set files"
    using scs(2,3) [of x] by blast
  then have "mirrored (fs sb) source replica (q @ [x])"
  proof cases
    case none
    then show ?thesis using src [of "q @ [x]"] by (simp add: mirrored_None path_exists_def)
  next
    case sub
    have "?P x sa" unfolding sa_def
    proof (rule fold_establish [where R = ?R and G = clean and P = ?P and ?s0.0 = st])
      fix y s assume y: "y \<in> set dirs" and r: "?R st s" and c: "clean (mirror_dir (replica @ q) y s)"
      let ?s' = "mirror_dir (replica @ q) y s"
      have "?R st ?s'" using fwd_rel_trans [OF r fwd_rel_mirror_dir [OF par]] by simp
      then have "lookup (fs ?s') (source @ q @ [y]) = lookup (fs st) (source @ q @ [y])"
        using fwd_rel_source [OF par] by blast
      moreover have "isdir (fs st) ((source @ q) @ [y])" using scs(2) y by simp
      moreover have "path_exists (fs ?s') ((replica @ q) @ [y])" using c by (rule mirror_dir_establishes)
      ultimately show "mirrored (fs ?s') source replica (q @ [y])"
        by (auto simp: mirrored_def isdir_def split: option.splits node.splits)
    qed (auto intro: fwd_rel_refl fwd_rel_mirror_dir [OF par] sub cla [unfolded sa_def]
              elim: fwd_rel_trans fwd_rel_mirrored fwd_rel_clean)
    then show ?thesis using fwd_rel_mirrored [OF Rb clb] by blast
  next
    case reg
    show ?thesis unfolding sb_def
    proof (rule fold_establish [where R = ?R and G = clean and P = ?P and ?s0.0 = st])
      fix y s assume "clean (sync_file (source @ q) (replica @ q) y s)"
      then show "mirrored (fs (sync_file (source @ q) (replica @ q) y s)) source replica (q @ [y])"
        by (rule sync_file_establishes [OF par])
    qed (auto intro: fwd_rel_refl fwd_rel_sync_file [OF par] reg Ra clb [unfolded sb_def]
              elim: fwd_rel_trans fwd_rel_mirrored fwd_rel_clean)
  qed
  with sb show ?thesis by simp
qed

lemma forward_walk_covers:
  assumes par: "source \<parallel> replica"
  shows "os_walk n (forward_body source replica) (source @ q) st = Some st' \<Longrightarrow> clean st' \<Longrightarrow>
     p \<noteq> [] \<Longrightarrow> walked (fs st) (source @ q) p \<Longrightarrow> mirrored (fs st') source replica (q @ p)"
proof (induction n arbitrary: q st st' p)
  case 0
  then show ?case by simp
next
  case (Suc n)
  let ?R = "fwd_rel source replica"
  have Rw: "?R st st'" using fwd_rel_walk [OF par Suc.prems(1)] .
  have src: "lookup (fs st') (source @ r) = lookup (fs st) (source @ r)" for r
    using fwd_rel_source [OF par Rw] .
  show ?case
  proof (cases "scandir (fs st) (source @ q)")
    case None
    then have "\<not> listable (fs st) (source @ q)" by (simp add: scandir_None)
    with Suc.prems(3,4) show ?thesis by (cases p) (auto simp: walked_Cons)
  next
    case (Some l)
    obtain dirs files where l: "l = (dirs, files)" by (cases l)
    note sc = Some [unfolded l]
    note scs = scandir_Some [OF sc]
    define st1 where "st1 = forward_body source replica (source @ q) dirs files st"
    let ?f = "\<lambda>x. os_walk n (forward_body source replica) (join (source @ q) [x])"
    have fe: "for_each ?f dirs st1 = Some st'"
      using Suc.prems(1) sc by (simp add: st1_def)
    have relf: "?R s s'" if "?f x s = Some s'" for x s s'
      using fwd_rel_walk [OF par, of n "q @ [x]" s s'] that by (simp add: join_def)
    have R1: "?R st1 st'"
      using fe by (rule for_each_rule [where R = ?R, rotated -1])
                  (auto intro: fwd_rel_refl relf elim: fwd_rel_trans)
    have R0: "?R st st1" unfolding st1_def by (rule fwd_rel_forward_body [OF par])
    have cl1: "clean st1" using fwd_rel_clean [OF R1 Suc.prems(2)] .
    obtain x p' where p: "p = x # p'" using Suc.prems(3) by (cases p) auto
    show ?thesis
    proof (cases "p' = []")
      case True
      have "mirrored (fs st1) source replica (q @ [x])"
        unfolding st1_def using par sc cl1 [unfolded st1_def] by (rule forward_body_establishes)
      then show ?thesis using fwd_rel_mirrored [OF R1 Suc.prems(2)] p True by simp
    next
      case False
      show ?thesis
      proof (cases "x \<in> set dirs")
        case True
        let ?P = "\<lambda>x s. \<forall>r. r \<noteq> [] \<longrightarrow> walked (fs st) (source @ q @ [x]) r \<longrightarrow>
                          mirrored (fs s) source replica ((q @ [x]) @ r)"
        have "?P x st'"
        proof (rule for_each_establish [where R = ?R and G = clean and P = ?P and f = ?f
                                          and ?s0.0 = st1 and s = st1, OF _ _ _ _ _ _ _ fe])
          fix y s s' assume r0: "?R st1 s" and run: "?f y s = Some s'" and cl: "clean s'"
          have "lookup (fs s) (source @ r) = lookup (fs st) (source @ r)" for r
            using fwd_rel_source [OF par fwd_rel_trans [OF R0 r0]] .
          then have "walked (fs s) (source @ q @ [y]) r = walked (fs st) (source @ q @ [y]) r" for r
            using walked_cong [of "fs s" "source @ q @ [y]" "fs st" r] by simp
          then show "?P y s'" using Suc.IH [of "q @ [y]" s s'] run cl by (simp add: join_def)
        next
          fix y a b assume "?R a b" "clean b" "?P y a"
          then show "?P y b" using fwd_rel_mirrored by blast
        qed (auto intro: fwd_rel_refl relf True Suc.prems(2)
                  elim: fwd_rel_trans fwd_rel_clean)
        moreover have "walked (fs st) (source @ q @ [x]) p'"
          using Suc.prems(4) p by (simp add: walked_Cons)
        ultimately show ?thesis using p False by simp
      next
        case False
        then have "\<not> isdir (fs st) ((source @ q) @ [x])" using scs(2) by simp
        then have "lookup (fs st) (((source @ q) @ [x]) @ p') = None"
          using \<open>p' \<noteq> []\<close> by (rule lookup_below_nondir)
        with src [of "q @ p"] p show ?thesis by (simp add: mirrored_None)
      qed
    qed
  qed
qed

section \<open>The reverse pass prunes every replica entry without a source\<close>

lemma del_kept:
  assumes "\<not> prefix t q"
  shows "map_option shallow (lookup (del t root) q) = map_option shallow (lookup root q)"
proof (cases "strict_prefix q t")
  case True
  then have "drop (length q) t \<noteq> []" by (auto simp: strict_prefix_def prefix_def)
  then show ?thesis
    using lookup_del_ancestor [OF True, of root] shallow_del by (cases "lookup root q") auto
next
  case False
  with assms have "t \<parallel> q" by (auto simp: parallel_def strict_prefix_def)
  then show ?thesis by (simp add: lookup_del_parallel)
qed

lemma del_gone: "t \<noteq> [] \<Longrightarrow> prefix t q \<Longrightarrow> lookup (del t root) q = None"
  using lookup_del_below [of t root] by (auto simp: prefix_def)

lemma del_antitone:
  "t \<noteq> [] \<Longrightarrow> lookup (del t root) q = None \<or>
     map_option shallow (lookup (del t root) q) = map_option shallow (lookup root q)"
  using del_gone [of t q root] del_kept [of t q root] by blast

lemma prune_file_cases:
  "prune_file d sr f st = st \<and> path_exists (fs st) (sr @ [f]) \<or>
   (\<not> path_exists (fs st) (sr @ [f]) \<and>
      prune_file d sr f st = logging (Info_FileRemoved (d @ [f])) (st\<lparr>fs := del (d @ [f]) (fs st)\<rparr>)) \<or>
   (\<exists>e. prune_file d sr f st = logging (Error_FileRemove (d @ [f]) e) st)"
proof (cases "path_exists (fs st) (sr @ [f])")
  case True
  then show ?thesis by (simp add: prune_file_def join_def Let_def)
next
  case False
  show ?thesis
  proof (cases "os_remove (fs st) (d @ [f])")
    case (Inl e)
    with False have "prune_file d sr f st = logging (Error_FileRemove (d @ [f]) e) st"
      by (simp add: prune_file_def join_def Let_def)
    then show ?thesis by blast
  next
    case (Inr root')
    then have "root' = del (d @ [f]) (fs st)" using os_remove_Inr by blast
    with Inr False show ?thesis by (simp add: prune_file_def join_def Let_def)
  qed
qed

lemma prune_dir_cases:
  "prune_dir d sr x st = st \<and> path_exists (fs st) (sr @ [x]) \<or>
   (\<not> path_exists (fs st) (sr @ [x]) \<and>
      prune_dir d sr x st = logging (Info_DirRemoved (d @ [x])) (st\<lparr>fs := del (d @ [x]) (fs st)\<rparr>)) \<or>
   (\<exists>e r. prune_dir d sr x st = logging (Error_DirRemove (d @ [x]) e) (st\<lparr>fs := r\<rparr>))"
proof (cases "path_exists (fs st) (sr @ [x])")
  case True
  then show ?thesis by (simp add: prune_dir_def join_def Let_def)
next
  case False
  show ?thesis
  proof (cases "rmtree (fs st) (d @ [x])")
    case (Inl er)
    obtain e r where "er = (e, r)" by (cases er)
    with Inl False have "prune_dir d sr x st = logging (Error_DirRemove (d @ [x]) e) (st\<lparr>fs := r\<rparr>)"
      by (simp add: prune_dir_def join_def Let_def)
    then show ?thesis by blast
  next
    case (Inr root')
    then have "root' = del (d @ [x]) (fs st)" using rmtree_Inr by blast
    with Inr False show ?thesis by (simp add: prune_dir_def join_def Let_def)
  qed
qed

lemma rev_rel_refl: "rev_rel source replica s s"
  by (simp add: rev_rel_def frame_rel_refl)

lemma rev_rel_clean: "rev_rel source replica a b \<Longrightarrow> clean b \<Longrightarrow> clean a"
  unfolding rev_rel_def using frame_rel_clean by blast

lemma rev_rel_source:
  "source \<parallel> replica \<Longrightarrow> rev_rel source replica a b \<Longrightarrow>
     lookup (fs b) (source @ p) = lookup (fs a) (source @ p)"
  unfolding rev_rel_def using frame_rel_source by blast

lemma rev_rel_trans:
  assumes par: "source \<parallel> replica"
    and ab: "rev_rel source replica a b" and bc: "rev_rel source replica b c"
  shows "rev_rel source replica a c"
proof -
  have fr: "frame_rel replica a c" using ab bc unfolding rev_rel_def using frame_rel_trans by blast
  have "(\<forall>q. lookup (fs c) q = None \<or>
             map_option shallow (lookup (fs c) q) = map_option shallow (lookup (fs a) q)) \<and>
        (\<forall>p. path_exists (fs a) (source @ p) \<longrightarrow>
             map_option shallow (lookup (fs c) (replica @ p)) =
             map_option shallow (lookup (fs a) (replica @ p)))" if cl: "clean c"
  proof (intro conjI allI impI)
    have clb: "clean b" using rev_rel_clean [OF bc cl] .
    fix q
    from bc cl have 1: "lookup (fs c) q = None \<or>
        map_option shallow (lookup (fs c) q) = map_option shallow (lookup (fs b) q)"
      by (simp add: rev_rel_def)
    from ab clb have 2: "lookup (fs b) q = None \<or>
        map_option shallow (lookup (fs b) q) = map_option shallow (lookup (fs a) q)"
      by (simp add: rev_rel_def)
    from 1 2 show "lookup (fs c) q = None \<or>
        map_option shallow (lookup (fs c) q) = map_option shallow (lookup (fs a) q)"
      by (cases "lookup (fs c) q") auto
  next
    have clb: "clean b" using rev_rel_clean [OF bc cl] .
    fix p assume ex: "path_exists (fs a) (source @ p)"
    then have "path_exists (fs b) (source @ p)"
      using rev_rel_source [OF par ab, of p] by (simp add: path_exists_def)
    with bc cl have "map_option shallow (lookup (fs c) (replica @ p)) =
        map_option shallow (lookup (fs b) (replica @ p))" by (simp add: rev_rel_def)
    moreover from ab clb ex have "map_option shallow (lookup (fs b) (replica @ p)) =
        map_option shallow (lookup (fs a) (replica @ p))" by (simp add: rev_rel_def)
    ultimately show "map_option shallow (lookup (fs c) (replica @ p)) =
        map_option shallow (lookup (fs a) (replica @ p))" by simp
  qed
  with fr show ?thesis by (simp add: rev_rel_def)
qed

lemma rev_rel_del:
  assumes "\<not> path_exists (fs st) (source @ q @ [x])"
  shows "rev_rel source replica st (logging e (st\<lparr>fs := del (replica @ q @ [x]) (fs st)\<rparr>))"
proof -
  have fr: "frame_rel replica st (logging e (st\<lparr>fs := del (replica @ q @ [x]) (fs st)\<rparr>))"
    by (rule frame_rel_del) (simp add: strict_prefix_def)
  have kept: "map_option shallow (lookup (del (replica @ q @ [x]) (fs st)) (replica @ p)) =
              map_option shallow (lookup (fs st) (replica @ p))"
    if "path_exists (fs st) (source @ p)" for p
  proof (rule del_kept)
    show "\<not> prefix (replica @ q @ [x]) (replica @ p)"
    proof
      assume "prefix (replica @ q @ [x]) (replica @ p)"
      then obtain r where "p = (q @ [x]) @ r" by (auto simp: prefix_def)
      with that have "path_exists (fs st) ((source @ q @ [x]) @ r)" by simp
      then have "path_exists (fs st) (source @ q @ [x])" by (rule path_exists_prefix)
      with assms show False by simp
    qed
  qed
  show ?thesis
    unfolding rev_rel_def using fr kept del_antitone [where t = "replica @ q @ [x]" and root = "fs st"]
    by simp
qed

lemma rev_rel_prune_file:
  "rev_rel source replica st (prune_file (replica @ q) (source @ q) f st)"
proof -
  let ?st' = "prune_file (replica @ q) (source @ q) f st"
  have fr: "frame_rel replica st ?st'" by (rule frame_prune_file) simp
  consider (same) "?st' = st"
    | (gone) "\<not> path_exists (fs st) (source @ q @ [f])"
        "?st' = logging (Info_FileRemoved ((replica @ q) @ [f])) (st\<lparr>fs := del (replica @ q @ [f]) (fs st)\<rparr>)"
    | (err) "\<not> clean ?st'"
    using prune_file_cases [of "replica @ q" "source @ q" f st] by auto
  then show ?thesis
  proof cases
    case same
    then show ?thesis by (simp add: rev_rel_refl)
  next
    case gone
    show ?thesis unfolding gone(2) using gone(1) by (rule rev_rel_del)
  next
    case err
    with fr show ?thesis by (simp add: rev_rel_def)
  qed
qed

lemma rev_rel_prune_dir:
  "rev_rel source replica st (prune_dir (replica @ q) (source @ q) x st)"
proof -
  let ?st' = "prune_dir (replica @ q) (source @ q) x st"
  have fr: "frame_rel replica st ?st'" by (rule frame_prune_dir) simp
  consider (same) "?st' = st"
    | (gone) "\<not> path_exists (fs st) (source @ q @ [x])"
        "?st' = logging (Info_DirRemoved ((replica @ q) @ [x])) (st\<lparr>fs := del (replica @ q @ [x]) (fs st)\<rparr>)"
    | (err) "\<not> clean ?st'"
    using prune_dir_cases [of "replica @ q" "source @ q" x st] by auto
  then show ?thesis
  proof cases
    case same
    then show ?thesis by (simp add: rev_rel_refl)
  next
    case gone
    show ?thesis unfolding gone(2) using gone(1) by (rule rev_rel_del)
  next
    case err
    with fr show ?thesis by (simp add: rev_rel_def)
  qed
qed

lemma rev_rel_reverse_body:
  assumes par: "source \<parallel> replica"
  shows "rev_rel source replica st (reverse_body source replica (replica @ q) dirs files st)"
proof -
  have rp: "join source (relpath (replica @ q) replica) = source @ q"
    by (simp add: join_def relpath_def)
  have 1: "rev_rel source replica st (fold (prune_file (replica @ q) (source @ q)) files st)"
    by (rule fold_rule [where R = "rev_rel source replica"])
       (auto intro: rev_rel_refl rev_rel_prune_file elim: rev_rel_trans [OF par])
  have 2: "rev_rel source replica s (fold (prune_dir (replica @ q) (source @ q)) dirs s)" for s
    by (rule fold_rule [where R = "rev_rel source replica"])
       (auto intro: rev_rel_refl rev_rel_prune_dir elim: rev_rel_trans [OF par])
  show ?thesis
    unfolding reverse_body_def Let_def rp using rev_rel_trans [OF par 1 2] .
qed

lemma rev_rel_walk:
  assumes par: "source \<parallel> replica"
  shows "os_walk n (reverse_body source replica) (replica @ q) st = Some st' \<Longrightarrow>
     rev_rel source replica st st'"
proof (rule os_walk_rule [where R = "rev_rel source replica" and t = replica and d = "replica @ q"])
  fix d dirs files s assume "prefix replica d"
  then obtain q' where "d = replica @ q'" by (auto simp: prefix_def)
  then show "rev_rel source replica s (reverse_body source replica d dirs files s)"
    using rev_rel_reverse_body [OF par] by simp
qed (auto intro: rev_rel_refl elim: rev_rel_trans [OF par])

lemma rev_rel_exists:
  "rev_rel source replica a b \<Longrightarrow> clean b \<Longrightarrow> path_exists (fs b) y \<Longrightarrow> path_exists (fs a) y"
  unfolding rev_rel_def path_exists_def by (metis option.map_disc_iff)

lemma rev_rel_isdir:
  assumes "rev_rel source replica a b" "clean b" "isdir (fs b) y"
  shows "isdir (fs a) y"
proof -
  from assms(3) obtain es ls w where l: "lookup (fs b) y = Some (Dir es ls w)"
    by (auto simp: isdir_def split: option.splits node.splits)
  with assms(1,2) have "map_option shallow (lookup (fs a) y) = Some (Dir [] ls w)"
    unfolding rev_rel_def by (metis option.distinct(1) option.simps(9) shallow_def node.simps(6))
  then show ?thesis
    by (cases "lookup (fs a) y") (auto simp: isdir_def shallow_def split: node.splits)
qed

lemma rev_rel_isfile:
  assumes "rev_rel source replica a b" "clean b" "isfile (fs b) y"
  shows "isfile (fs a) y"
proof -
  from assms(3) obtain c r w where l: "lookup (fs b) y = Some (File c r w)"
    by (auto simp: isfile_def split: option.splits node.splits)
  with assms(1,2) have "map_option shallow (lookup (fs a) y) = Some (File c r w)"
    unfolding rev_rel_def by (metis option.distinct(1) option.simps(9) shallow_def node.simps(5))
  then show ?thesis
    by (cases "lookup (fs a) y") (auto simp: isfile_def shallow_def split: node.splits)
qed

lemma rev_rel_pruned:
  assumes par: "source \<parallel> replica" and r: "rev_rel source replica a b" and cl: "clean b"
    and p: "pruned (fs a) source replica p"
  shows "pruned (fs b) source replica p"
proof (cases "path_exists (fs b) (replica @ p)")
  case True
  then have "path_exists (fs a) (replica @ p)" using rev_rel_exists [OF r cl] by blast
  with p have "path_exists (fs a) (source @ p)" by (simp add: pruned_def)
  then have "path_exists (fs b) (source @ p)"
    using rev_rel_source [OF par r, of p] by (simp add: path_exists_def)
  then show ?thesis by (simp add: pruned_def)
next
  case False
  then show ?thesis by (simp add: pruned_def)
qed

lemma rev_rel_kept:
  "rev_rel source replica a b \<Longrightarrow> clean b \<Longrightarrow> path_exists (fs a) (source @ p) \<Longrightarrow>
     map_option shallow (lookup (fs b) (replica @ p)) = map_option shallow (lookup (fs a) (replica @ p))"
  by (simp add: rev_rel_def)

lemma rev_rel_mirrored:
  assumes par: "source \<parallel> replica" and r: "rev_rel source replica a b" and cl: "clean b"
    and m: "mirrored (fs a) source replica p"
  shows "mirrored (fs b) source replica p"
proof (cases "lookup (fs a) (source @ p)")
  case None
  then show ?thesis using rev_rel_source [OF par r, of p] by (simp add: mirrored_None)
next
  case (Some n)
  then have ex: "path_exists (fs a) (source @ p)" by (simp add: path_exists_def)
  note k = rev_rel_kept [OF r cl ex]
  note src = rev_rel_source [OF par r, of p]
  show ?thesis
  proof (cases n)
    case (File c rd w)
    with m Some obtain c' w' where "rd" "lookup (fs a) (replica @ p) = Some (File c' True w')"
        "md5_hex c' = md5_hex c"
      by (auto simp: mirrored_def split: option.splits node.splits)
    moreover from this k have "lookup (fs b) (replica @ p) = Some (File c' True w')"
      using shallow_eq_FileD by simp
    ultimately show ?thesis using src Some File by (simp add: mirrored_def)
  next
    case (Dir es ls w)
    with m Some have "path_exists (fs a) (replica @ p)" by (simp add: mirrored_def)
    with k have "path_exists (fs b) (replica @ p)"
      by (cases "lookup (fs b) (replica @ p)") (auto simp: path_exists_def)
    with src Some Dir show ?thesis by (simp add: mirrored_def)
  qed
qed

lemma rev_rel_conflict_free:
  assumes par: "source \<parallel> replica" and r: "rev_rel source replica a b" and cl: "clean b"
    and cf: "conflict_free (fs a) source replica"
  shows "conflict_free (fs b) source replica"
  unfolding conflict_free_def
proof (intro allI notI, elim conjE)
  fix p assume "isdir (fs b) (source @ p)" "isfile (fs b) (replica @ p)"
  then have "isdir (fs a) (source @ p)" "isfile (fs a) (replica @ p)"
    using rev_rel_isdir [OF r cl] rev_rel_isfile [OF r cl] by blast+
  with cf show False by (simp add: conflict_free_def)
qed

lemma lookup_del_self: "t \<noteq> [] \<Longrightarrow> lookup (del t root) t = None"
  using lookup_del_below [of t root "[]"] by simp

lemma prune_file_establishes:
  assumes "clean (prune_file (replica @ q) (source @ q) f st)"
  shows "pruned (fs (prune_file (replica @ q) (source @ q) f st)) source replica (q @ [f])"
  using prune_file_cases [of "replica @ q" "source @ q" f st] assms
  by (auto simp: pruned_def path_exists_def lookup_del_self)

lemma prune_dir_establishes:
  assumes "clean (prune_dir (replica @ q) (source @ q) x st)"
  shows "pruned (fs (prune_dir (replica @ q) (source @ q) x st)) source replica (q @ [x])"
  using prune_dir_cases [of "replica @ q" "source @ q" x st] assms
  by (auto simp: pruned_def path_exists_def lookup_del_self)

lemma reverse_body_establishes:
  assumes par: "source \<parallel> replica"
    and sc: "scandir (fs st) (replica @ q) = Some (dirs, files)"
    and cl: "clean (reverse_body source replica (replica @ q) dirs files st)"
  shows "pruned (fs (reverse_body source replica (replica @ q) dirs files st)) source replica (q @ [x])"
proof -
  let ?R = "rev_rel source replica"
  let ?P = "\<lambda>x s. pruned (fs s) source replica (q @ [x])"
  define sa where "sa = fold (prune_file (replica @ q) (source @ q)) files st"
  define sb where "sb = fold (prune_dir (replica @ q) (source @ q)) dirs sa"
  have rp: "join source (relpath (replica @ q) replica) = source @ q"
    by (simp add: join_def relpath_def)
  have sb: "reverse_body source replica (replica @ q) dirs files st = sb"
    by (simp add: reverse_body_def Let_def rp sa_def sb_def)
  have Ra: "?R st sa" unfolding sa_def
    by (rule fold_rule [where R = ?R])
       (auto intro: rev_rel_refl rev_rel_prune_file elim: rev_rel_trans [OF par])
  have Rb: "?R sa sb" unfolding sb_def
    by (rule fold_rule [where R = ?R])
       (auto intro: rev_rel_refl rev_rel_prune_dir elim: rev_rel_trans [OF par])
  have clb: "clean sb" using cl sb by simp
  have cla: "clean sa" using rev_rel_clean [OF Rb clb] .
  note scs = scandir_Some [OF sc]
  consider (none) "\<not> path_exists (fs st) ((replica @ q) @ [x])"
    | (sub) "x \<in> set dirs" | (reg) "x \<in> set files"
    using scs(2,3) [of x] by blast
  then have "pruned (fs sb) source replica (q @ [x])"
  proof cases
    case none
    then have "\<not> path_exists (fs sb) (replica @ q @ [x])"
      using rev_rel_exists [OF rev_rel_trans [OF par Ra Rb] clb] by auto
    then show ?thesis by (simp add: pruned_def)
  next
    case reg
    have "?P x sa" unfolding sa_def
    proof (rule fold_establish [where R = ?R and G = clean and P = ?P and ?s0.0 = st])
      fix y s assume "clean (prune_file (replica @ q) (source @ q) y s)"
      then show "pruned (fs (prune_file (replica @ q) (source @ q) y s)) source replica (q @ [y])"
        by (rule prune_file_establishes)
    qed (auto intro: rev_rel_refl rev_rel_prune_file reg cla [unfolded sa_def]
              elim: rev_rel_trans [OF par] rev_rel_pruned [OF par] rev_rel_clean)
    then show ?thesis using rev_rel_pruned [OF par Rb clb] by blast
  next
    case sub
    show ?thesis unfolding sb_def
    proof (rule fold_establish [where R = ?R and G = clean and P = ?P and ?s0.0 = st])
      fix y s assume "clean (prune_dir (replica @ q) (source @ q) y s)"
      then show "pruned (fs (prune_dir (replica @ q) (source @ q) y s)) source replica (q @ [y])"
        by (rule prune_dir_establishes)
    qed (auto intro: rev_rel_refl rev_rel_prune_dir sub Ra clb [unfolded sb_def]
              elim: rev_rel_trans [OF par] rev_rel_pruned [OF par] rev_rel_clean)
  qed
  with sb show ?thesis by simp
qed

lemma rev_rel_antitone:
  "rev_rel source replica a b \<Longrightarrow> clean b \<Longrightarrow>
     lookup (fs b) q = None \<or>
     map_option shallow (lookup (fs b) q) = map_option shallow (lookup (fs a) q)"
  by (simp add: rev_rel_def)

lemma rev_rel_listable:
  assumes "rev_rel source replica a b" "clean b" "listable (fs b) y"
  shows "listable (fs a) y"
proof -
  from assms(3) have "lookup (fs b) y \<noteq> None" by (auto simp: listable_def split: option.splits)
  with rev_rel_antitone [OF assms(1,2), of y]
  have "map_option shallow (lookup (fs b) y) = map_option shallow (lookup (fs a) y)" by simp
  with assms(3) show ?thesis using listable_shallow by blast
qed

lemma rev_rel_walked:
  "rev_rel source replica a b \<Longrightarrow> clean b \<Longrightarrow> walked (fs b) base p \<Longrightarrow> walked (fs a) base p"
  unfolding walked_def using rev_rel_listable by blast

lemma rev_rel_all_listable:
  assumes r: "rev_rel source replica a b" and cl: "clean b" and al: "all_listable (fs a) base"
  shows "all_listable (fs b) base"
  unfolding all_listable_def
proof (intro allI impI)
  fix p assume d: "isdir (fs b) (base @ p)"
  then have "lookup (fs b) (base @ p) \<noteq> None" by (auto simp: isdir_def split: option.splits)
  with rev_rel_antitone [OF r cl, of "base @ p"]
  have sh: "map_option shallow (lookup (fs b) (base @ p)) =
      map_option shallow (lookup (fs a) (base @ p))" by simp
  from d have "isdir (fs a) (base @ p)" using rev_rel_isdir [OF r cl] by blast
  with al have "listable (fs a) (base @ p)" by (simp add: all_listable_def)
  with sh show "listable (fs b) (base @ p)" using listable_shallow by blast
qed

lemma reverse_walk_covers:
  assumes par: "source \<parallel> replica"
  shows "os_walk n (reverse_body source replica) (replica @ q) st = Some st' \<Longrightarrow> clean st' \<Longrightarrow>
     p \<noteq> [] \<Longrightarrow> walked (fs st') (replica @ q) p \<Longrightarrow> pruned (fs st') source replica (q @ p)"
proof (induction n arbitrary: q st st' p)
  case 0
  then show ?case by simp
next
  case (Suc n)
  let ?R = "rev_rel source replica"
  have Rw: "?R st st'" using rev_rel_walk [OF par Suc.prems(1)] .
  show ?case
  proof (cases "scandir (fs st) (replica @ q)")
    case None
    then have "\<not> listable (fs st) (replica @ q)" by (simp add: scandir_None)
    moreover from None Suc.prems(1) have "st' = st" by simp
    ultimately show ?thesis using Suc.prems(3,4) by (cases p) (auto simp: walked_Cons)
  next
    case (Some l)
    obtain dirs files where l: "l = (dirs, files)" by (cases l)
    note sc = Some [unfolded l]
    note scs = scandir_Some [OF sc]
    define st1 where "st1 = reverse_body source replica (replica @ q) dirs files st"
    let ?f = "\<lambda>x. os_walk n (reverse_body source replica) (join (replica @ q) [x])"
    have fe: "for_each ?f dirs st1 = Some st'"
      using Suc.prems(1) sc by (simp add: st1_def)
    have relf: "?R s s'" if "?f x s = Some s'" for x s s'
      using rev_rel_walk [OF par, of n "q @ [x]" s s'] that by (simp add: join_def)
    have R1: "?R st1 st'"
      using fe by (rule for_each_rule [where R = ?R, rotated -1])
                  (auto intro: rev_rel_refl relf elim: rev_rel_trans [OF par])
    have cl1: "clean st1" using rev_rel_clean [OF R1 Suc.prems(2)] .
    obtain x p' where p: "p = x # p'" using Suc.prems(3) by (cases p) auto
    show ?thesis
    proof (cases "p' = []")
      case True
      have "pruned (fs st1) source replica (q @ [x])"
        unfolding st1_def using par sc cl1 [unfolded st1_def] by (rule reverse_body_establishes)
      then show ?thesis using rev_rel_pruned [OF par R1 Suc.prems(2)] p True by simp
    next
      case False
      show ?thesis
      proof (cases "x \<in> set dirs")
        case True
        let ?P = "\<lambda>x s. \<forall>r. r \<noteq> [] \<longrightarrow> walked (fs s) (replica @ q @ [x]) r \<longrightarrow>
                          pruned (fs s) source replica ((q @ [x]) @ r)"
        have "?P x st'"
        proof (rule for_each_establish [where R = ?R and G = clean and P = ?P and f = ?f
                                          and ?s0.0 = st1 and s = st1, OF _ _ _ _ _ _ _ fe])
          fix y s s' assume "?f y s = Some s'" "clean s'"
          then show "?P y s'" using Suc.IH [of "q @ [y]" s s'] by (simp add: join_def)
        next
          fix y a b assume "?R a b" "clean b" "?P y a"
          then show "?P y b" using rev_rel_pruned [OF par] rev_rel_walked by blast
        qed (auto intro: rev_rel_refl relf True Suc.prems(2)
                  elim: rev_rel_trans [OF par] rev_rel_clean)
        moreover have "walked (fs st') (replica @ q @ [x]) p'"
          using Suc.prems(4) p by (simp add: walked_Cons)
        ultimately show ?thesis using p False by simp
      next
        case False
        then have nd: "\<not> isdir (fs st) ((replica @ q) @ [x])" using scs(2) by simp
        have "\<not> isdir (fs st') ((replica @ q) @ [x])"
          using rev_rel_isdir [OF Rw Suc.prems(2)] nd by blast
        then have "lookup (fs st') (((replica @ q) @ [x]) @ p') = None"
          using \<open>p' \<noteq> []\<close> by (rule lookup_below_nondir)
        with p show ?thesis by (simp add: pruned_def path_exists_def)
      qed
    qed
  qed
qed

section \<open>A pass without errors, and the pass after it\<close>

lemma frame_rel_root:
  assumes "frame_rel replica a b" and "path_exists (fs a) replica"
  shows "map_option shallow (lookup (fs b) replica) = map_option shallow (lookup (fs a) replica)"
  using assms by (simp add: frame_rel_def)

lemma frame_rel_root_exists:
  assumes "frame_rel replica a b" and "path_exists (fs a) replica"
  shows "path_exists (fs b) replica"
  using frame_rel_root [OF assms] assms(2)
  by (cases "lookup (fs b) replica") (auto simp: path_exists_def)

lemma sync_folders_Inr:
  assumes "sync_folders n source replica st = Some (Inr st')"
  obtains st1 st2 where "create_replica replica st = Inr st1"
    "os_walk n (forward_body source replica) source st1 = Some st2"
    "os_walk n (reverse_body source replica) replica st2 = Some st'"
  using assms by (auto simp: sync_folders_def split: sum.splits option.splits prod.splits)

lemma create_replica_Inr:
  assumes "create_replica replica st = Inr st1"
  shows "path_exists (fs st1) replica"
    and "frame_rel replica st st1"
    and "source \<parallel> replica \<Longrightarrow> conflict_free (fs st) source replica \<Longrightarrow> conflict_free (fs st1) source replica"
    and "source \<parallel> replica \<Longrightarrow> mirrored (fs st) source replica p \<Longrightarrow> mirrored (fs st1) source replica p"
    and "all_listable (fs st) base \<Longrightarrow> all_listable (fs st1) base"
proof -
  consider (same) "st1 = st" "path_exists (fs st) replica"
    | (made) root' where "creates replica (Dir [] True True) (fs st) root'" "lookup (fs st) replica = None"
        "st1 = logging (Info_ReplicaCreated replica) (st\<lparr>fs := root'\<rparr>)"
    using create_replica_cases [of replica st] assms by auto
  note cs = this
  show "path_exists (fs st1) replica"
    using cs by cases (auto simp: creates_def path_exists_def)
  show "frame_rel replica st st1"
    using frame_create_replica [of replica st] assms by (simp add: final_state_def)
  show "conflict_free (fs st1) source replica"
    if "source \<parallel> replica" "conflict_free (fs st) source replica"
    using cs
  proof cases
    case same
    with that show ?thesis by simp
  next
    case made
    show ?thesis using conflict_free_creates_dir [OF that(1) _ made(1) that(2)] made(3) by simp
  qed
  show "mirrored (fs st1) source replica p"
    if "source \<parallel> replica" "mirrored (fs st) source replica p"
    using cs
  proof cases
    case same
    with that show ?thesis by simp
  next
    case made
    show ?thesis using mirrored_creates_dir [OF that(1) _ made(1,2) that(2)] made(3) by simp
  qed
  show "all_listable (fs st1) base" if "all_listable (fs st) base"
    using cs
  proof cases
    case same
    with that show ?thesis by simp
  next
    case made
    show ?thesis using all_listable_creates [OF made(1) _ that] made(3) by simp
  qed
qed

lemma pass_settles:
  assumes par: "source \<parallel> replica"
    and run: "sync_folders n source replica st = Some (Inr st')" and cl: "clean st'"
  shows "settled (fs st') source replica"
    and "conflict_free (fs st) source replica \<Longrightarrow> conflict_free (fs st') source replica"
    and "all_listable (fs st) replica \<Longrightarrow> all_listable (fs st') replica"
proof -
  from run obtain st1 st2 where 1: "create_replica replica st = Inr st1"
    and 2: "os_walk n (forward_body source replica) source st1 = Some st2"
    and 3: "os_walk n (reverse_body source replica) replica st2 = Some st'"
    by (rule sync_folders_Inr)
  have R3: "rev_rel source replica st2 st'" using rev_rel_walk [OF par, of n "[]"] 3 by simp
  have cl2: "clean st2" using rev_rel_clean [OF R3 cl] .
  have R2: "fwd_rel source replica st1 st2" using fwd_rel_walk [OF par, of n "[]"] 2 by simp
  have ex1: "path_exists (fs st1) replica" using create_replica_Inr(1) [OF 1] .
  have ex2: "path_exists (fs st2) replica"
    using R2 ex1 frame_rel_root_exists unfolding fwd_rel_def by blast
  have ex3: "path_exists (fs st') replica"
    using R3 ex2 frame_rel_root_exists unfolding rev_rel_def by blast
  have m: "mirrored (fs st') source replica p" if "p \<noteq> []" "walked (fs st') source p" for p
  proof -
    have "lookup (fs st') (source @ q) = lookup (fs st1) (source @ q)" for q
      using rev_rel_source [OF par R3, of q] fwd_rel_source [OF par R2, of q] by simp
    then have "walked (fs st1) (source @ []) p"
      using walked_cong [of "fs st'" source "fs st1" p] that(2) by simp
    then have "mirrored (fs st2) source replica ([] @ p)"
      using forward_walk_covers [OF par _ cl2 that(1), of n "[]" st1] 2 by simp
    then show ?thesis using rev_rel_mirrored [OF par R3 cl] by simp
  qed
  have pr: "pruned (fs st') source replica p" if "p \<noteq> []" "walked (fs st') replica p" for p
    using reverse_walk_covers [OF par _ cl that(1), of n "[]" st2] 3 that(2) by simp
  show "settled (fs st') source replica" using ex3 m pr by (simp add: settled_def)
  show "all_listable (fs st') replica" if "all_listable (fs st) replica"
  proof -
    have "all_listable (fs st1) replica" using create_replica_Inr(5) [OF 1 that] .
    then have "all_listable (fs st2) replica" using R2 cl2 by (simp add: fwd_rel_def)
    then show ?thesis using rev_rel_all_listable [OF R3 cl] by simp
  qed
  show "conflict_free (fs st') source replica" if "conflict_free (fs st) source replica"
  proof -
    have "conflict_free (fs st1) source replica" using create_replica_Inr(3) [OF 1 par that] .
    then have "conflict_free (fs st2) source replica" using R2 cl2 by (simp add: fwd_rel_def)
    then show ?thesis using rev_rel_conflict_free [OF par R3 cl] by simp
  qed
qed

lemma for_each_id:
  assumes "\<And>x. x \<in> set xs \<Longrightarrow> f x s = Some s"
  shows "for_each f xs s = Some s"
  using assms by (induction xs) auto

lemma fold_id:
  assumes "\<And>x. x \<in> set xs \<Longrightarrow> f x s = s"
  shows "fold f xs s = s"
  using assms by (induction xs) auto

lemma os_walk_id:
  assumes body: "\<And>d dirs files. W d \<Longrightarrow> scandir (fs st) d = Some (dirs, files) \<Longrightarrow>
                   body d dirs files st = st"
    and step: "\<And>d dirs files x. W d \<Longrightarrow> scandir (fs st) d = Some (dirs, files) \<Longrightarrow>
                   x \<in> set dirs \<Longrightarrow> W (d @ [x])"
  shows "W d \<Longrightarrow> sz (fs st) d < n \<Longrightarrow> os_walk n body d st = Some st"
proof (induction n arbitrary: d)
  case 0
  then show ?case by simp
next
  case (Suc n)
  show ?case
  proof (cases "scandir (fs st) d")
    case None
    then show ?thesis by simp
  next
    case (Some l)
    obtain dirs files where l: "l = (dirs, files)" by (cases l)
    note sc = scandir_Some [OF Some [unfolded l]]
    have b: "body d dirs files st = st" using body Suc.prems(1) Some l by simp
    have "for_each (\<lambda>x. os_walk n body (join d [x])) dirs st = Some st"
    proof (rule for_each_id)
      fix x assume x: "x \<in> set dirs"
      then have "path_exists (fs st) (d @ [x])" using sc(2) isdir_exists by blast
      then have "sz (fs st) (d @ [x]) < n" using sz_child [of "fs st" d x] Suc.prems(2) by simp
      moreover have "W (d @ [x])" using step [OF Suc.prems(1) Some [unfolded l] x] .
      ultimately show "os_walk n body (join d [x]) st = Some st"
        using Suc.IH by (simp add: join_def)
    qed
    with Some l b show ?thesis by simp
  qed
qed

lemma forward_body_id:
  assumes m0: "\<And>p. p \<noteq> [] \<Longrightarrow> walked (fs st) source p \<Longrightarrow> mirrored (fs st) source replica p"
    and wq: "walked (fs st) source q"
    and sc: "scandir (fs st) (source @ q) = Some (dirs, files)"
  shows "forward_body source replica (source @ q) dirs files st = st"
proof -
  note scs = scandir_Some [OF sc]
  have m: "mirrored (fs st) source replica (q @ [x])" for x
    using m0 [of "q @ [x]"] wq scs(6) by (simp add: walked_snoc)
  have rp: "join replica (relpath (source @ q) source) = replica @ q"
    by (simp add: join_def relpath_def)
  have 1: "mirror_dir (replica @ q) x st = st" if "x \<in> set dirs" for x
  proof -
    from that have "isdir (fs st) (source @ q @ [x])" using scs(2) by simp
    with m [of x] have "path_exists (fs st) (replica @ q @ [x])"
      by (auto simp: mirrored_def isdir_def split: option.splits node.splits)
    then show ?thesis by (simp add: mirror_dir_def join_def)
  qed
  have 2: "sync_file (source @ q) (replica @ q) x st = st" if "x \<in> set files" for x
  proof -
    from that have "path_exists (fs st) (source @ q @ [x])" "\<not> isdir (fs st) (source @ q @ [x])"
      using scs(3) by simp_all
    then obtain c r w where s: "lookup (fs st) (source @ q @ [x]) = Some (File c r w)"
      by (auto simp: path_exists_def isdir_def split: option.splits node.splits)
    with m [of x] obtain c' w' where r: "r"
      and rep: "lookup (fs st) (replica @ q @ [x]) = Some (File c' True w')" "md5_hex c' = md5_hex c"
      by (auto simp: mirrored_def split: option.splits node.splits)
    have "compute_md5 (source @ q @ [x]) st = (md5_hex c, st)"
      using s r by (intro compute_md5_readable [where w = w]) simp
    moreover have "compute_md5 (replica @ q @ [x]) st = (md5_hex c', st)"
      using rep(1) by (rule compute_md5_readable)
    moreover have "path_exists (fs st) (replica @ q @ [x])" using rep by (simp add: path_exists_def)
    ultimately show ?thesis using rep(2) by (simp add: sync_file_def join_def)
  qed
  show ?thesis
    unfolding forward_body_def Let_def rp by (simp add: fold_id 1 2)
qed


lemma walked_step:
  assumes "\<exists>q. d = base @ q \<and> walked root base q" and "scandir root d = Some (dirs, files)"
  shows "\<exists>q. d @ [x] = base @ q \<and> walked root base q"
proof -
  from assms(1) obtain q where q: "d = base @ q" "walked root base q" by blast
  have "listable root (base @ q)" using scandir_Some(6) [OF assms(2)] q by simp
  with q have "walked root base (q @ [x])" by (simp add: walked_snoc)
  with q show ?thesis by (metis append.assoc)
qed

lemma forward_walk_settled:
  assumes m: "\<And>p. p \<noteq> [] \<Longrightarrow> walked (fs st) source p \<Longrightarrow> mirrored (fs st) source replica p"
    and "sz (fs st) source < n"
  shows "os_walk n (forward_body source replica) source st = Some st"
proof (rule os_walk_id [where W = "\<lambda>d. \<exists>q. d = source @ q \<and> walked (fs st) source q"])
  fix d dirs files
  assume "\<exists>q. d = source @ q \<and> walked (fs st) source q" "scandir (fs st) d = Some (dirs, files)"
  then show "forward_body source replica d dirs files st = st"
    using forward_body_id [OF m] by blast
next
  fix d dirs files x
  assume "\<exists>q. d = source @ q \<and> walked (fs st) source q" "scandir (fs st) d = Some (dirs, files)"
  then show "\<exists>q. d @ [x] = source @ q \<and> walked (fs st) source q" by (rule walked_step)
next
  show "\<exists>q. source = source @ q \<and> walked (fs st) source q" by simp
qed (rule assms(2))



lemma os_walk_det:
  assumes "os_walk n body d st = Some a" and "os_walk m body d st = Some b"
  shows "a = b"
  using os_walk_mono [OF assms(1), of "max n m"] os_walk_mono [OF assms(2), of "max n m"] by simp

lemma forward_walk_id:
  assumes m: "\<And>p. p \<noteq> [] \<Longrightarrow> walked (fs st) source p \<Longrightarrow> mirrored (fs st) source replica p"
    and run: "os_walk n (forward_body source replica) source st = Some st'"
  shows "st' = st"
proof -
  have "os_walk (Suc (sz (fs st) source)) (forward_body source replica) source st = Some st"
  proof (rule forward_walk_settled)
    fix p assume "p \<noteq> []" "walked (fs st) source p"
    then show "mirrored (fs st) source replica p" by (rule m)
  qed simp
  with run show ?thesis by (rule os_walk_det)
qed

lemma Dir_no_children:
  assumes "\<And>x. lookup (Dir es ls w) [x] = None"
  shows "es = []"
proof (cases es)
  case (Cons a es')
  obtain x c where "a = (x, c)" by (cases a)
  with Cons assms [of x] show ?thesis by simp
qed simp

lemma shallow_Dir_eq:
  "map_option shallow a = map_option shallow (Some (Dir es ls w)) \<Longrightarrow> \<exists>es'. a = Some (Dir es' ls w)"
  by (cases a) (auto simp: shallow_def split: node.splits)

section \<open>The claims\<close>

lemma chunks_of_Nil: "chunks_of n [] = []"
  by (simp add: chunks_of.simps [of n "[]"])

lemma read_chunks_Nil: "read_chunks [] h = h"
  by (simp add: read_chunks.simps [of "[]" h])

lemma read_chunks_fold:
  "read_chunks f h = fold (\<lambda>chunk h. md5_update h chunk) (chunks_of 4096 f) h"
proof (induction f h rule: read_chunks.induct)
  case (1 f h)
  show ?case
  proof (cases "f = []")
    case True
    then show ?thesis by (simp add: read_chunks_Nil chunks_of_Nil)
  next
    case False
    then have "take 4096 f \<noteq> []" by simp
    with 1 False show ?thesis
      by (simp add: read_chunks.simps [of f h] chunks_of.simps [of 4096 f] Let_def)
  qed
qed

lemma concat_chunks_of: "0 < n \<Longrightarrow> concat (chunks_of n f) = f"
proof (induction n f rule: chunks_of.induct)
  case (1 n f)
  then show ?case by (cases "f = []") (simp_all add: chunks_of.simps [of n f] chunks_of_Nil)
qed

lemma chunks_of_bounds: "list_all (\<lambda>chunk. chunk \<noteq> [] \<and> length chunk \<le> n) (chunks_of n f)"
proof (induction n f rule: chunks_of.induct)
  case (1 n f)
  then show ?case by (cases "n = 0 \<or> f = []") (auto simp: chunks_of.simps [of n f] chunks_of_Nil)
qed

lemma chunks_of_full:
  "list_all (\<lambda>chunk. length chunk = n) (butlast (chunks_of n f))"
proof (induction n f rule: chunks_of.induct)
  case (1 n f)
  show ?case
  proof (cases "n = 0 \<or> f = []")
    case True
    then show ?thesis by (simp add: chunks_of.simps [of n f])
  next
    case False
    show ?thesis
    proof (cases "chunks_of n (drop n f) = []")
      case True
      with False show ?thesis by (simp add: chunks_of.simps [of n f])
    next
      case ne: False
      then have "drop n f \<noteq> []" by (auto simp: chunks_of.simps [of n "drop n f"])
      then have "length (take n f) = n" by simp
      with 1 False ne show ?thesis by (simp add: chunks_of.simps [of n f])
    qed
  qed
qed

text \<open>
  Claim C8. For a readable regular file, \<open>compute_md5\<close> reads the content in chunks of
  4096 bytes (all full but possibly the last, none empty, together the whole
  content), folds every chunk into the running MD5 state, logs nothing, and returns
  the MD5 digest of the whole content: 32 lower-case hexadecimal characters.
\<close>

theorem compute_md5_readable_file:
  assumes "lookup (fs st) file_path = Some (File c True w)"
  shows "compute_md5 file_path st = (md5_hex c, st) \<and>
         md5_hex c = md5_hexdigest (fold (\<lambda>chunk h. md5_update h chunk) (chunks_of 4096 c) md5_new) \<and>
         concat (chunks_of 4096 c) = c \<and>
         list_all (\<lambda>chunk. chunk \<noteq> [] \<and> length chunk \<le> 4096) (chunks_of 4096 c) \<and>
         list_all (\<lambda>chunk. length chunk = 4096) (butlast (chunks_of 4096 c)) \<and>
         length (md5_hex c) = 32 \<and>
         list_all (\<lambda>ch. ch \<in> set ''0123456789abcdef'') (md5_hex c)"
proof -
  have 1: "compute_md5 file_path st = (md5_hex c, st)"
    using assms by (rule compute_md5_readable)
  have 2: "md5_hex c = md5_hexdigest (fold (\<lambda>chunk h. md5_update h chunk) (chunks_of 4096 c) md5_new)"
    using read_chunks_digest [of c] by (simp add: read_chunks_fold)
  have 3: "concat (chunks_of 4096 c) = c" by (simp add: concat_chunks_of)
  have 4: "length (md5_hex c) = 32" by (simp add: md5_hex_def length_md5_hex_regs)
  have 5: "list_all (\<lambda>ch. ch \<in> set ''0123456789abcdef'') (md5_hex c)"
    unfolding md5_hex_def list_all_iff using set_md5_hex_regs by blast
  from 1 2 3 4 5 chunks_of_bounds [of 4096 c] chunks_of_full [of 4096 c] show ?thesis by blast
qed

theorem compute_md5_readable_file_witness:
  "lookup (fs \<lparr>fs = Dir [(''f'', File [1, 2, 3] True True)] True True, events = []\<rparr>) [''f'']
     = Some (File [1, 2, 3] True True) \<and>
   compute_md5 [''f''] \<lparr>fs = Dir [(''f'', File [1, 2, 3] True True)] True True, events = []\<rparr>
     = (md5_hex [1, 2, 3], \<lparr>fs = Dir [(''f'', File [1, 2, 3] True True)] True True, events = []\<rparr>) \<and>
   length (md5_hex [1, 2, 3]) = 32"
proof -
  have h: "lookup (fs \<lparr>fs = Dir [(''f'', File [1, 2, 3] True True)] True True, events = []\<rparr>) [''f'']
     = Some (File [1, 2, 3] True True)" by simp
  from compute_md5_readable_file [OF h] h show ?thesis by blast
qed

lemma md5_hex_empty: "md5_hex [] = ''d41d8cd98f00b204e9800998ecf8427e''"
  by code_simp


lemma compute_md5_digest_fs:
  "fs st1 = fs st \<Longrightarrow> fst (compute_md5 p st1) = fst (compute_md5 p st)"
  by (simp add: compute_md5_def split: sum.splits)

lemma compute_md5_fs: "fs (snd (compute_md5 p st)) = fs st"
  using compute_md5_state [of p st] by auto



lemma md5_hex_01: "md5_hex [1] = ''55a54008ad1ba589aa210d2629c1df41''"
  by code_simp

lemma copy_and_log_events:
  "\<exists>e. events (copy_and_log src dst st) = events st @ [e] \<and>
       (e = Info_Synchronizing src dst \<or> (\<exists>x. e = Error_Synchronizing src dst x))"
  using copy_and_log_cases [of src dst st] by auto

text \<open>
  Claim C3, as amended. For a source file of the forward pass, \<open>sync_folders\<close> calls
  \<open>shutil.copy2\<close> (and logs its one line, the synchronisation or the error it
  raised) exactly when the replica entry is absent or \<open>compute_md5\<close> gives
  different digests for the two paths. When the digests are equal it leaves the
  file system as it is and logs nothing of its own; what the log gains then are
  the error lines of \<open>compute_md5\<close> for a path it could not open, none when both
  are readable files.
\<close>

theorem copy_decision:
  "(\<not> path_exists (fs st) (join rr [f]) \<longrightarrow>
      sync_file root rr f st = copy_and_log (join root [f]) (join rr [f]) st) \<and>
   (path_exists (fs st) (join rr [f]) \<and>
    fst (compute_md5 (join root [f]) st) \<noteq> fst (compute_md5 (join rr [f]) st) \<longrightarrow>
      (\<exists>st2. fs st2 = fs st \<and>
          sync_file root rr f st = copy_and_log (join root [f]) (join rr [f]) st2)) \<and>
   (path_exists (fs st) (join rr [f]) \<and>
    fst (compute_md5 (join root [f]) st) = fst (compute_md5 (join rr [f]) st) \<longrightarrow>
      fs (sync_file root rr f st) = fs st \<and>
      sync_file root rr f st = snd (compute_md5 (join rr [f]) (snd (compute_md5 (join root [f]) st))) \<and>
      ((\<exists>c w. lookup (fs st) (join root [f]) = Some (File c True w)) \<and>
       (\<exists>c w. lookup (fs st) (join rr [f]) = Some (File c True w)) \<longrightarrow>
         sync_file root rr f st = st)) \<and>
   (\<exists>e. events (copy_and_log (join root [f]) (join rr [f]) st)  = events st @ [e] \<and>
        (e = Info_Synchronizing (join root [f]) (join rr [f]) \<or>
         (\<exists>x. e = Error_Synchronizing (join root [f]) (join rr [f]) x)))"
proof -
  obtain d1 st1 where 1: "compute_md5 (join root [f]) st = (d1, st1)" by force
  obtain d2 st2 where 2: "compute_md5 (join rr [f]) st1 = (d2, st2)" by force
  have f1: "fs st1 = fs st" using compute_md5_fs [of "join root [f]" st] 1 by simp
  have f2: "fs st2 = fs st" using compute_md5_fs [of "join rr [f]" st1] 2 f1 by simp
  have d2: "fst (compute_md5 (join rr [f]) st) = d2"
    using compute_md5_digest_fs [OF f1, of "join rr [f]"] 2 by simp
  have a: "\<not> path_exists (fs st) (join rr [f]) \<longrightarrow>
      sync_file root rr f st = copy_and_log (join root [f]) (join rr [f]) st"
    by (simp add: sync_file_def)
  have b: "path_exists (fs st) (join rr [f]) \<and>
    fst (compute_md5 (join root [f]) st) \<noteq> fst (compute_md5 (join rr [f]) st) \<longrightarrow>
      (\<exists>st2. fs st2 = fs st \<and>
          sync_file root rr f st = copy_and_log (join root [f]) (join rr [f]) st2)"
    using 1 2 f2 d2 by (auto simp: sync_file_def)
  have c: "path_exists (fs st) (join rr [f]) \<and>
    fst (compute_md5 (join root [f]) st) = fst (compute_md5 (join rr [f]) st) \<longrightarrow>
      fs (sync_file root rr f st) = fs st \<and>
      sync_file root rr f st = snd (compute_md5 (join rr [f]) (snd (compute_md5 (join root [f]) st))) \<and>
      ((\<exists>c w. lookup (fs st) (join root [f]) = Some (File c True w)) \<and>
       (\<exists>c w. lookup (fs st) (join rr [f]) = Some (File c True w)) \<longrightarrow>
         sync_file root rr f st = st)"
  proof (intro impI conjI; elim conjE)
    assume ex: "path_exists (fs st) (join rr [f])"
      and eq: "fst (compute_md5 (join root [f]) st) = fst (compute_md5 (join rr [f]) st)"
    from ex eq 1 2 d2 have s: "sync_file root rr f st = st2" by (simp add: sync_file_def)
    show "fs (sync_file root rr f st) = fs st" using s f2 by simp
    show "sync_file root rr f st = snd (compute_md5 (join rr [f]) (snd (compute_md5 (join root [f]) st)))"
      using s 1 2 by simp
    assume "\<exists>c w. lookup (fs st) (join root [f]) = Some (File c True w)"
      and "\<exists>c w. lookup (fs st) (join rr [f]) = Some (File c True w)"
    then obtain c w c' w' where "lookup (fs st) (join root [f]) = Some (File c True w)"
      "lookup (fs st) (join rr [f]) = Some (File c' True w')" by blast
    then have "st1 = st" "st2 = st1"
      using 1 2 compute_md5_readable [of st "join root [f]" c w]
            compute_md5_readable [of st "join rr [f]" c' w'] by auto
    with s show "sync_file root rr f st = st" by simp
  qed
  from a b c copy_and_log_events [of "join root [f]" "join rr [f]" st] show ?thesis by blast
qed

text \<open>
  The claim as written fails where the digests match by degradation: the source
  file may not be read, the replica file is empty. Both digests are the digest of
  no bytes, nothing is copied, and one error line is logged for the file.
\<close>

theorem copy_decision_counterexample:
  "path_exists (fs \<lparr>fs = Dir [(''s'', Dir [(''f'', File [1] False True)] True True),
                            (''r'', Dir [(''f'', File [] True True)] True True)] True True,
                  events = []\<rparr>) (join [''r''] [''f'']) \<and>
   fst (compute_md5 (join [''s''] [''f''])
          \<lparr>fs = Dir [(''s'', Dir [(''f'', File [1] False True)] True True),
                     (''r'', Dir [(''f'', File [] True True)] True True)] True True,
           events = []\<rparr>)
   = fst (compute_md5 (join [''r''] [''f''])
          \<lparr>fs = Dir [(''s'', Dir [(''f'', File [1] False True)] True True),
                     (''r'', Dir [(''f'', File [] True True)] True True)] True True,
           events = []\<rparr>) \<and>
   sync_file [''s''] [''r''] ''f''
      \<lparr>fs = Dir [(''s'', Dir [(''f'', File [1] False True)] True True),
                 (''r'', Dir [(''f'', File [] True True)] True True)] True True,
       events = []\<rparr>
   = \<lparr>fs = Dir [(''s'', Dir [(''f'', File [1] False True)] True True),
                (''r'', Dir [(''f'', File [] True True)] True True)] True True,
      events = [Error_Md5 [''s'', ''f''] PermissionError]\<rparr>"
  by (simp add: path_exists_def join_def sync_file_def compute_md5_def open_rb_def
                read_chunks_Nil logging_def)

theorem copy_decision_witness:
  "\<not> path_exists (fs \<lparr>fs = Dir [(''s'', Dir [(''f'', File [1] True True)] True True),
                              (''r'', Dir [] True True)] True True, events = []\<rparr>) (join [''r''] [''f'']) \<and>
   sync_file [''s''] [''r''] ''f''
      \<lparr>fs = Dir [(''s'', Dir [(''f'', File [1] True True)] True True), (''r'', Dir [] True True)] True True,
       events = []\<rparr>
   = copy_and_log (join [''s''] [''f'']) (join [''r''] [''f''])
      \<lparr>fs = Dir [(''s'', Dir [(''f'', File [1] True True)] True True), (''r'', Dir [] True True)] True True,
       events = []\<rparr> \<and>
   fst (compute_md5 (join [''s''] [''f''])
          \<lparr>fs = Dir [(''s'', Dir [(''f'', File [1] True True)] True True),
                     (''r'', Dir [(''f'', File [] True True)] True True)] True True, events = []\<rparr>)
   \<noteq> fst (compute_md5 (join [''r''] [''f''])
          \<lparr>fs = Dir [(''s'', Dir [(''f'', File [1] True True)] True True),
                     (''r'', Dir [(''f'', File [] True True)] True True)] True True, events = []\<rparr>) \<and>
   (\<exists>st2. fs st2 = Dir [(''s'', Dir [(''f'', File [1] True True)] True True),
                        (''r'', Dir [(''f'', File [] True True)] True True)] True True \<and>
      sync_file [''s''] [''r''] ''f''
        \<lparr>fs = Dir [(''s'', Dir [(''f'', File [1] True True)] True True),
                   (''r'', Dir [(''f'', File [] True True)] True True)] True True, events = []\<rparr>
      = copy_and_log (join [''s''] [''f'']) (join [''r''] [''f'']) st2) \<and>
   sync_file [''s''] [''r''] ''f''
      \<lparr>fs = Dir [(''s'', Dir [(''f'', File [1] True True)] True True),
                 (''r'', Dir [(''f'', File [1] True True)] True True)] True True, events = []\<rparr>
   = \<lparr>fs = Dir [(''s'', Dir [(''f'', File [1] True True)] True True),
                (''r'', Dir [(''f'', File [1] True True)] True True)] True True, events = []\<rparr>"
proof -
  let ?a = "\<lparr>fs = Dir [(''s'', Dir [(''f'', File [1] True True)] True True), (''r'', Dir [] True True)] True True,
             events = []\<rparr>"
  let ?b = "\<lparr>fs = Dir [(''s'', Dir [(''f'', File [1] True True)] True True),
                     (''r'', Dir [(''f'', File [] True True)] True True)] True True, events = []\<rparr>"
  let ?c = "\<lparr>fs = Dir [(''s'', Dir [(''f'', File [1] True True)] True True),
                     (''r'', Dir [(''f'', File [1] True True)] True True)] True True, events = []\<rparr>"
  have a: "\<not> path_exists (fs ?a) (join [''r''] [''f''])" by (simp add: path_exists_def join_def)
  have b1: "path_exists (fs ?b) (join [''r''] [''f''])" by (simp add: path_exists_def join_def)
  have b2: "fst (compute_md5 (join [''s''] [''f'']) ?b) \<noteq> fst (compute_md5 (join [''r''] [''f'']) ?b)"
    using compute_md5_readable [of ?b "[''s'', ''f'']" "[1]" True]
          compute_md5_readable [of ?b "[''r'', ''f'']" "[]" True]
    by (simp add: join_def md5_hex_01 md5_hex_empty)
  have c1: "path_exists (fs ?c) (join [''r''] [''f''])" by (simp add: path_exists_def join_def)
  have c2: "fst (compute_md5 (join [''s''] [''f'']) ?c) = fst (compute_md5 (join [''r''] [''f'']) ?c)"
    using compute_md5_readable [of ?c "[''s'', ''f'']" "[1]" True]
          compute_md5_readable [of ?c "[''r'', ''f'']" "[1]" True]
    by (simp add: join_def)
  have c3: "\<exists>c w. lookup (fs ?c) (join [''s''] [''f'']) = Some (File c True w)" by (auto simp: join_def)
  have c4: "\<exists>c w. lookup (fs ?c) (join [''r''] [''f'']) = Some (File c True w)" by (auto simp: join_def)
  from copy_decision [of ?a "[''r'']" "''f''" "[''s'']"] a
  have ra: "sync_file [''s''] [''r''] ''f'' ?a = copy_and_log (join [''s''] [''f'']) (join [''r''] [''f'']) ?a"
    by blast
  from copy_decision [of ?b "[''r'']" "''f''" "[''s'']"] b1 b2
  have rb: "\<exists>st2. fs st2 = fs ?b \<and>
      sync_file [''s''] [''r''] ''f'' ?b = copy_and_log (join [''s''] [''f'']) (join [''r''] [''f'']) st2"
    by blast
  from copy_decision [of ?c "[''r'']" "''f''" "[''s'']"] c1 c2 c3 c4
  have rc: "sync_file [''s''] [''r''] ''f'' ?c = ?c" by blast
  from a ra b2 rb rc show ?thesis by simp
qed

lemma sync_folders_Inl:
  "sync_folders n source replica st = Some (Inl x) \<longleftrightarrow> create_replica replica st = Inl x"
  by (auto simp: sync_folders_def split: sum.splits option.splits prod.splits)

text \<open>
  Claim C6. When the replica root does not exist, \<open>sync_folders\<close> calls
  \<open>os.makedirs\<close> on it. If that succeeds, the root and every missing parent are
  directories afterwards, nothing else has changed, the creation is logged and the
  pass goes on without raising. If it fails, nothing has been created, one error
  line is logged and the exception leaves \<open>sync_folders\<close>: no walk is made.
\<close>

theorem replica_root_creation:
  assumes "\<not> path_exists (fs st) replica"
  shows "(\<forall>e root'. makedirs (fs st) replica = Inl (e, root') \<longrightarrow>
            root' = fs st \<and>
            (\<forall>n. \<exists>ev. is_error ev \<and>
                 sync_folders n source replica st = Some (Inl (e, logging ev st)))) \<and>
         (\<forall>root'. makedirs (fs st) replica = Inr root' \<longrightarrow>
            (\<forall>q. prefix q replica \<longrightarrow> isdir root' q) \<and>
            (\<forall>q. \<not> prefix q replica \<longrightarrow> lookup root' q = lookup (fs st) q) \<and>
            (\<forall>q. path_exists (fs st) q \<longrightarrow>
                 map_option shallow (lookup root' q) = map_option shallow (lookup (fs st) q)) \<and>
            create_replica replica st =
              Inr (logging (Info_ReplicaCreated replica) (st\<lparr>fs := root'\<rparr>)) \<and>
            (\<forall>n x. sync_folders n source replica st \<noteq> Some (Inl x)))"
proof (intro conjI allI impI)
  fix e root' assume m: "makedirs (fs st) replica = Inl (e, root')"
  then show r: "root' = fs st" using makedirs_spec [of "fs st" replica] by simp
  fix n
  define ev where "ev = (if e = PermissionError then Error_ReplicaPermission replica
                         else Error_ReplicaCreate replica e)"
  have "create_replica replica st = Inl (e, logging ev st)"
    using assms m r by (simp add: create_replica_def ev_def)
  then have "sync_folders n source replica st = Some (Inl (e, logging ev st))"
    by (simp add: sync_folders_Inl)
  moreover have "is_error ev" by (simp add: ev_def)
  ultimately show "\<exists>ev. is_error ev \<and> sync_folders n source replica st = Some (Inl (e, logging ev st))"
    by blast
next
  fix root' assume m: "makedirs (fs st) replica = Inr root'"
  then have c: "creates replica (Dir [] True True) (fs st) root'"
    using makedirs_spec [of "fs st" replica] by simp
  have cr: "create_replica replica st = Inr (logging (Info_ReplicaCreated replica) (st\<lparr>fs := root'\<rparr>))"
    using assms m by (simp add: create_replica_def)
  show "create_replica replica st = Inr (logging (Info_ReplicaCreated replica) (st\<lparr>fs := root'\<rparr>))"
    by (rule cr)
  {
    fix q assume "prefix q replica"
    then show "isdir root' q"
      using c by (cases "q = replica") (auto simp: creates_def isdir_def strict_prefix_def)
  next
    fix q assume "\<not> prefix q replica"
    then show "lookup root' q = lookup (fs st) q" using c by (simp add: creates_def)
  next
    fix q assume ex: "path_exists (fs st) q"
    show "map_option shallow (lookup root' q) = map_option shallow (lookup (fs st) q)"
    proof (cases "prefix q replica")
      case True
      with ex assms have "strict_prefix q replica" by (auto simp: strict_prefix_def)
      with c ex show ?thesis by (simp add: creates_def)
    next
      case False
      with c show ?thesis by (simp add: creates_def)
    qed
  next
    fix n x show "sync_folders n source replica st \<noteq> Some (Inl x)"
      using cr by (simp add: sync_folders_Inl)
  }
qed

theorem replica_root_creation_witness:
  "\<not> path_exists (fs \<lparr>fs = Dir [(''s'', Dir [] True True)] True False, events = []\<rparr>) [''r''] \<and>
   makedirs (fs \<lparr>fs = Dir [(''s'', Dir [] True True)] True False, events = []\<rparr>) [''r'']
     = Inl (PermissionError, Dir [(''s'', Dir [] True True)] True False) \<and>
   (\<exists>ev. is_error ev \<and>
      sync_folders 5 [''s''] [''r''] \<lparr>fs = Dir [(''s'', Dir [] True True)] True False, events = []\<rparr>
        = Some (Inl (PermissionError,
             logging ev \<lparr>fs = Dir [(''s'', Dir [] True True)] True False, events = []\<rparr>))) \<and>
   \<not> path_exists (fs \<lparr>fs = Dir [(''s'', Dir [] True True)] True True, events = []\<rparr>) [''x'', ''r''] \<and>
   makedirs (fs \<lparr>fs = Dir [(''s'', Dir [] True True)] True True, events = []\<rparr>) [''x'', ''r'']
     = Inr (Dir [(''s'', Dir [] True True), (''x'', Dir [(''r'', Dir [] True True)] True True)] True True) \<and>
   isdir (Dir [(''s'', Dir [] True True), (''x'', Dir [(''r'', Dir [] True True)] True True)] True True) [''x''] \<and>
   isdir (Dir [(''s'', Dir [] True True), (''x'', Dir [(''r'', Dir [] True True)] True True)] True True) [''x'', ''r'']"
proof -
  let ?a = "\<lparr>fs = Dir [(''s'', Dir [] True True)] True False, events = []\<rparr>"
  let ?b = "\<lparr>fs = Dir [(''s'', Dir [] True True)] True True, events = []\<rparr>"
  let ?r = "Dir [(''s'', Dir [] True True), (''x'', Dir [(''r'', Dir [] True True)] True True)] True True"
  have a1: "\<not> path_exists (fs ?a) [''r'']" by (simp add: path_exists_def)
  have a2: "makedirs (fs ?a) [''r''] = Inl (PermissionError, Dir [(''s'', Dir [] True True)] True False)"
    by code_simp
  have b1: "\<not> path_exists (fs ?b) [''x'', ''r'']" by (simp add: path_exists_def)
  have b2: "makedirs (fs ?b) [''x'', ''r''] = Inr ?r" by code_simp
  from replica_root_creation [OF a1, of "[''s'']"] a2
  have ra: "\<exists>ev. is_error ev \<and> sync_folders 5 [''s''] [''r''] ?a = Some (Inl (PermissionError, logging ev ?a))"
    by simp
  from replica_root_creation [OF b1, of "[''s'']"] b2
  have rb: "\<forall>q. prefix q [''x'', ''r''] \<longrightarrow> isdir ?r q" by blast
  then have "isdir ?r [''x'']" "isdir ?r [''x'', ''r'']" by simp_all
  with a1 a2 ra b1 b2 show ?thesis by blast
qed



text \<open>
  Claim C9, as amended. For two different roots neither of which lies inside the
  other, \<open>sync_folders\<close> returns, and whatever it returns, every path at or below
  the source root holds what it held before: nothing there is created, changed or
  removed. Every path that is not inside the replica tree and existed keeps its
  kind, content and permissions: what the pass creates, overwrites or removes
  lies below the replica root, apart from the root itself and its missing
  parents.
\<close>

theorem source_read_only:
  assumes "source \<parallel> replica"
  shows "(\<exists>n r. sync_folders n source replica st = Some r) \<and>
         (\<forall>n r. sync_folders n source replica st = Some r \<longrightarrow>
            (\<forall>p. lookup (fs (final_state r)) (source @ p) = lookup (fs st) (source @ p)) \<and>
            (\<forall>q. q \<parallel> replica \<longrightarrow> lookup (fs (final_state r)) q = lookup (fs st) q) \<and>
            (\<forall>q. \<not> prefix replica q \<longrightarrow> path_exists (fs st) q \<longrightarrow>
                 map_option shallow (lookup (fs (final_state r)) q) =
                 map_option shallow (lookup (fs st) q)))"
proof (intro conjI allI impI)
  show "\<exists>n r. sync_folders n source replica st = Some r"
    using assms by (rule sync_folders_terminates)
next
  fix n r assume run: "sync_folders n source replica st = Some r"
  note fr = sync_folders_frame [OF run]
  {
    fix p show "lookup (fs (final_state r)) (source @ p) = lookup (fs st) (source @ p)"
      using frame_rel_source [OF assms fr] .
  next
    fix q assume "q \<parallel> replica"
    then show "lookup (fs (final_state r)) q = lookup (fs st) q"
      using fr by (simp add: frame_rel_def)
  next
    fix q assume np: "\<not> prefix replica q" and ex: "path_exists (fs st) q"
    show "map_option shallow (lookup (fs (final_state r)) q) = map_option shallow (lookup (fs st) q)"
    proof (cases "prefix q replica")
      case True
      with fr ex show ?thesis by (simp add: frame_rel_def)
    next
      case False
      with np have "q \<parallel> replica" by (simp add: parallel_def)
      with fr show ?thesis by (simp add: frame_rel_def)
    qed
  }
qed

text \<open>
  The claim as written, for every pair of roots, fails when one root lies inside
  the other. With the source \<open>r/s\<close> inside the replica \<open>r\<close>, the forward pass
  copies \<open>r/s/a\<close> to \<open>r/a\<close> and the reverse pass, finding no \<open>r/s/s\<close>, removes the
  directory \<open>r/s\<close>: the whole source tree is deleted, with no error logged. With
  the replica \<open>s/r\<close> inside the source \<open>s\<close>, creating the replica root already
  creates a directory in the source tree.
\<close>

theorem source_read_only_counterexample:
  "sync_folders 3 [''r'', ''s''] [''r'']
     \<lparr>fs = Dir [(''r'', Dir [(''s'', Dir [(''a'', File [1] True True)] True True)] True True)]
             True True,
      events = []\<rparr>
   = Some (Inr \<lparr>fs = Dir [(''r'', Dir [(''a'', File [1] True True)] True True)] True True,
                events = [Info_Synchronizing [''r'', ''s'', ''a''] [''r'', ''a''],
                          Info_DirRemoved [''r'', ''s'']]\<rparr>) \<and>
   lookup (Dir [(''r'', Dir [(''s'', Dir [(''a'', File [1] True True)] True True)] True True)]
             True True) ([''r'', ''s''] @ [''a'']) = Some (File [1] True True) \<and>
   lookup (Dir [(''r'', Dir [(''a'', File [1] True True)] True True)] True True)
          ([''r'', ''s''] @ [''a'']) = None \<and>
   lookup (Dir [(''r'', Dir [(''a'', File [1] True True)] True True)] True True)
          ([''r'', ''s''] @ []) = None \<and>
   create_replica [''s'', ''r'']
     \<lparr>fs = Dir [(''s'', Dir [(''a'', File [1] True True)] True True)] True True, events = []\<rparr>
   = Inr \<lparr>fs = Dir [(''s'', Dir [(''a'', File [1] True True), (''r'', Dir [] True True)]
                            True True)] True True,
          events = [Info_ReplicaCreated [''s'', ''r'']]\<rparr> \<and>
   lookup (Dir [(''s'', Dir [(''a'', File [1] True True)] True True)] True True)
          ([''s''] @ [''r'']) = None \<and>
   lookup (Dir [(''s'', Dir [(''a'', File [1] True True), (''r'', Dir [] True True)]
                  True True)] True True)
          ([''s''] @ [''r'']) = Some (Dir [] True True)"
proof -
  have a: "sync_folders 3 [''r'', ''s''] [''r'']
     \<lparr>fs = Dir [(''r'', Dir [(''s'', Dir [(''a'', File [1] True True)] True True)] True True)]
             True True,
      events = []\<rparr>
   = Some (Inr \<lparr>fs = Dir [(''r'', Dir [(''a'', File [1] True True)] True True)] True True,
                events = [Info_Synchronizing [''r'', ''s'', ''a''] [''r'', ''a''],
                          Info_DirRemoved [''r'', ''s'']]\<rparr>)"
    by code_simp
  have b: "create_replica [''s'', ''r'']
     \<lparr>fs = Dir [(''s'', Dir [(''a'', File [1] True True)] True True)] True True, events = []\<rparr>
   = Inr \<lparr>fs = Dir [(''s'', Dir [(''a'', File [1] True True), (''r'', Dir [] True True)]
                            True True)] True True,
          events = [Info_ReplicaCreated [''s'', ''r'']]\<rparr>"
    by code_simp
  show ?thesis using a b by simp
qed

theorem source_read_only_witness:
  "[''s''] \<parallel> [''r''] \<and>
   sync_folders 3 [''s''] [''r'']
     \<lparr>fs = Dir [(''s'', Dir [(''a'', Dir [(''b'', File [104, 101] True True)] True True)] True True),
                (''r'', Dir [(''x'', File [] True True)] True True)] True True, events = []\<rparr>
   = Some (Inr \<lparr>fs = Dir [(''s'', Dir [(''a'', Dir [(''b'', File [104, 101] True True)] True True)] True True),
                          (''r'', Dir [(''a'', Dir [(''b'', File [104, 101] True True)] True True)] True True)] True True,
                events = [Info_DirCreated [''r'', ''a''],
                          Info_Synchronizing [''s'', ''a'', ''b''] [''r'', ''a'', ''b''],
                          Info_FileRemoved [''r'', ''x'']]\<rparr>) \<and>
   (\<forall>p. lookup (Dir [(''s'', Dir [(''a'', Dir [(''b'', File [104, 101] True True)] True True)] True True),
                     (''r'', Dir [(''a'', Dir [(''b'', File [104, 101] True True)] True True)] True True)] True True)
                ([''s''] @ p)
        = lookup (Dir [(''s'', Dir [(''a'', Dir [(''b'', File [104, 101] True True)] True True)] True True),
                       (''r'', Dir [(''x'', File [] True True)] True True)] True True) ([''s''] @ p))"
proof -
  let ?st = "\<lparr>fs = Dir [(''s'', Dir [(''a'', Dir [(''b'', File [104, 101] True True)] True True)] True True),
                      (''r'', Dir [(''x'', File [] True True)] True True)] True True, events = []\<rparr>"
  let ?st' = "\<lparr>fs = Dir [(''s'', Dir [(''a'', Dir [(''b'', File [104, 101] True True)] True True)] True True),
                          (''r'', Dir [(''a'', Dir [(''b'', File [104, 101] True True)] True True)] True True)] True True,
                events = [Info_DirCreated [''r'', ''a''],
                          Info_Synchronizing [''s'', ''a'', ''b''] [''r'', ''a'', ''b''],
                          Info_FileRemoved [''r'', ''x'']]\<rparr>"
  have h: "[''s''] \<parallel> [''r'']" by (simp add: parallel_def)
  have run: "sync_folders 3 [''s''] [''r''] ?st = Some (Inr ?st')" by code_simp
  from source_read_only [OF h, of ?st] run
  have "\<forall>p. lookup (fs (final_state (Inr ?st'))) ([''s''] @ p) = lookup (fs ?st) ([''s''] @ p)"
    by blast
  with h run show ?thesis by (simp add: final_state_def)
qed

lemma md5_hex_collision_a: "md5_hex collision_a = ''79054025255fb1a26e4bc422aef54eb4''"
  by code_simp

lemma md5_hex_collision_b: "md5_hex collision_b = ''79054025255fb1a26e4bc422aef54eb4''"
  by code_simp

lemma collision_differs: "collision_a \<noteq> collision_b"
  by (simp add: collision_a_def collision_b_def)

lemma all_listable_cong:
  assumes "\<And>q. lookup a (base @ q) = lookup b (base @ q)"
  shows "all_listable a base = all_listable b base"
  unfolding all_listable_def isdir_def listable_def using assms by simp

lemma settled_converged:
  assumes s: "settled root source replica" and cf: "conflict_free root source replica"
    and ls: "all_listable root source" and lr: "all_listable root replica"
  shows "converged root source replica"
  unfolding converged_def
proof (intro allI impI)
  fix p :: path assume p: "p \<noteq> []"
  have m: "mirrored root source replica p" if "path_exists root (source @ p)"
    using s p all_listable_walked [OF ls that] by (simp add: settled_def)
  have pr: "pruned root source replica p" if "path_exists root (replica @ p)"
    using s p all_listable_walked [OF lr that] by (simp add: settled_def)
  show "case lookup root (source @ p) of
           None \<Rightarrow> lookup root (replica @ p) = None
         | Some (File c r w) \<Rightarrow>
             (case lookup root (replica @ p) of
                Some (File c' r' w') \<Rightarrow> md5_hex c' = md5_hex c
              | _ \<Rightarrow> False)
         | Some (Dir es ls w) \<Rightarrow> isdir root (replica @ p)"
  proof (cases "lookup root (source @ p)")
    case None
    have "lookup root (replica @ p) = None"
    proof (rule ccontr)
      assume "lookup root (replica @ p) \<noteq> None"
      then have ex: "path_exists root (replica @ p)" by (simp add: path_exists_def)
      with pr [OF ex] None show False by (simp add: pruned_def path_exists_def)
    qed
    with None show ?thesis by simp
  next
    case (Some n)
    then have m: "mirrored root source replica p" using m by (simp add: path_exists_def)
    show ?thesis
    proof (cases n)
      case (File c r w)
      with Some m show ?thesis
        by (auto simp: mirrored_def split: option.splits node.splits)
    next
      case (Dir es ls w)
      with Some have d: "isdir root (source @ p)" by (simp add: isdir_def)
      with cf have nf: "\<not> isfile root (replica @ p)" by (auto simp: conflict_free_def)
      from Some Dir m have "path_exists root (replica @ p)" by (simp add: mirrored_def)
      with nf have "isdir root (replica @ p)"
        by (auto simp: path_exists_def isfile_def isdir_def split: option.splits node.splits)
      with Some Dir show ?thesis by simp
    qed
  qed
qed

text \<open>
  Claim C1, as amended. Take two different roots neither of which lies inside the
  other, a replica tree that has no regular file where the source tree has a
  directory, and source and replica trees all of whose directories can be listed.
  After one call of \<open>sync_folders\<close> that returns without having logged an error,
  the source tree is what it was, the replica root exists, and below the roots the
  replica has exactly the relative paths of the source, a directory for each
  directory and, for each file, a file whose content has the same MD5 digest.
\<close>

theorem convergence:
  assumes "source \<parallel> replica"
    and "sync_folders n source replica st = Some (Inr st')"
    and "clean st'"
    and "conflict_free (fs st) source replica"
    and "all_listable (fs st) source"
    and "all_listable (fs st) replica"
  shows "converged (fs st') source replica \<and>
         path_exists (fs st') replica \<and>
         (\<forall>p. lookup (fs st') (source @ p) = lookup (fs st) (source @ p))"
proof (intro conjI allI)
  note s = pass_settles [OF assms(1,2,3)]
  have "frame_rel replica st (final_state (Inr st'))" using sync_folders_frame [OF assms(2)] .
  then have src: "lookup (fs st') (source @ p) = lookup (fs st) (source @ p)" for p
    using frame_rel_source [OF assms(1), of st st' p] by (simp add: final_state_def)
  have ls: "all_listable (fs st') source"
    using all_listable_cong [of "fs st'" source "fs st", OF src] assms(5) by simp
  show "converged (fs st') source replica"
    using settled_converged [OF s(1) s(2) [OF assms(4)] ls s(3) [OF assms(6)]] .
  show "path_exists (fs st') replica" using s(1) by (simp add: settled_def)
  fix p
  show "lookup (fs st') (source @ p) = lookup (fs st) (source @ p)" by (rule src)
qed

text \<open>
  The claim as written fails in five ways; each time the pass returns with no
  error logged.
  \<^enum> The replica has a regular file \<open>d\<close> where the source has an empty directory
    \<open>d\<close>: both passes find the other path existing and do nothing.
  \<^enum> The two files \<open>f\<close> have different contents with the same MD5 digest: the
    comparison takes them for equal and copies nothing.
  \<^enum> The source \<open>r/s\<close> lies inside the replica \<open>r\<close>: the file is copied to \<open>r/a\<close> and
    the source directory is removed, so that the replica has an entry the source
    has not.
  \<^enum> The source directory \<open>d\<close> cannot be listed: \<open>os.walk\<close> skips it in silence
    and its file \<open>x\<close> is not copied.
  \<^enum> The replica directory \<open>d\<close> cannot be listed: \<open>os.walk\<close> skips it in silence
    and its stale file \<open>x\<close> is not removed.
\<close>

theorem convergence_counterexample:
  "sync_folders 3 [''s''] [''r'']
     \<lparr>fs = Dir [(''s'', Dir [(''d'', Dir [] True True)] True True),
                (''r'', Dir [(''d'', File [1] True True)] True True)] True True, events = []\<rparr>
   = Some (Inr \<lparr>fs = Dir [(''s'', Dir [(''d'', Dir [] True True)] True True),
                          (''r'', Dir [(''d'', File [1] True True)] True True)] True True,
                events = []\<rparr>) \<and>
   sync_folders 3 [''s''] [''r'']
     \<lparr>fs = Dir [(''s'', Dir [(''f'', File collision_a True True)] True True),
                (''r'', Dir [(''f'', File collision_b True True)] True True)] True True,
      events = []\<rparr>
   = Some (Inr \<lparr>fs = Dir [(''s'', Dir [(''f'', File collision_a True True)] True True),
                          (''r'', Dir [(''f'', File collision_b True True)] True True)] True True,
                events = []\<rparr>) \<and>
   collision_a \<noteq> collision_b \<and>
   sync_folders 3 [''r'', ''s''] [''r'']
     \<lparr>fs = Dir [(''r'', Dir [(''s'', Dir [(''a'', File [1] True True)] True True)] True True)]
             True True,
      events = []\<rparr>
   = Some (Inr \<lparr>fs = Dir [(''r'', Dir [(''a'', File [1] True True)] True True)] True True,
                events = [Info_Synchronizing [''r'', ''s'', ''a''] [''r'', ''a''],
                          Info_DirRemoved [''r'', ''s'']]\<rparr>) \<and>
   lookup (Dir [(''r'', Dir [(''a'', File [1] True True)] True True)] True True)
          ([''r''] @ [''a'']) = Some (File [1] True True) \<and>
   lookup (Dir [(''r'', Dir [(''a'', File [1] True True)] True True)] True True)
          ([''r'', ''s''] @ [''a'']) = None \<and>
   sync_folders 3 [''s''] [''r'']
     \<lparr>fs = Dir [(''s'', Dir [(''d'', Dir [(''x'', File [1] True True)] False True)] True True),
                (''r'', Dir [] True True)] True True, events = []\<rparr>
   = Some (Inr \<lparr>fs = Dir [(''s'', Dir [(''d'', Dir [(''x'', File [1] True True)] False True)]
                                   True True),
                          (''r'', Dir [(''d'', Dir [] True True)] True True)] True True,
                events = [Info_DirCreated [''r'', ''d'']]\<rparr>) \<and>
   sync_folders 3 [''s''] [''r'']
     \<lparr>fs = Dir [(''s'', Dir [(''d'', Dir [] True True)] True True),
                (''r'', Dir [(''d'', Dir [(''x'', File [1] True True)] False True)] True True)]
             True True, events = []\<rparr>
   = Some (Inr \<lparr>fs = Dir [(''s'', Dir [(''d'', Dir [] True True)] True True),
                          (''r'', Dir [(''d'', Dir [(''x'', File [1] True True)] False True)]
                                   True True)] True True,
                events = []\<rparr>) \<and>
   [''s''] \<parallel> [''r'']"
proof -
  have a: "sync_folders 3 [''s''] [''r'']
     \<lparr>fs = Dir [(''s'', Dir [(''d'', Dir [] True True)] True True),
                (''r'', Dir [(''d'', File [1] True True)] True True)] True True, events = []\<rparr>
   = Some (Inr \<lparr>fs = Dir [(''s'', Dir [(''d'', Dir [] True True)] True True),
                          (''r'', Dir [(''d'', File [1] True True)] True True)] True True,
                events = []\<rparr>)"
    by code_simp
  have b: "sync_folders 3 [''s''] [''r'']
     \<lparr>fs = Dir [(''s'', Dir [(''f'', File collision_a True True)] True True),
                (''r'', Dir [(''f'', File collision_b True True)] True True)] True True,
      events = []\<rparr>
   = Some (Inr \<lparr>fs = Dir [(''s'', Dir [(''f'', File collision_a True True)] True True),
                          (''r'', Dir [(''f'', File collision_b True True)] True True)] True True,
                events = []\<rparr>)"
    by (simp add: sync_folders_def create_replica_def path_exists_def numeral_3_eq_3
          scandir_def isdir_def join_def relpath_def forward_body_def reverse_body_def
          sync_file_def prune_file_def compute_md5_readable
          md5_hex_collision_a md5_hex_collision_b)
  have c: "sync_folders 3 [''r'', ''s''] [''r'']
     \<lparr>fs = Dir [(''r'', Dir [(''s'', Dir [(''a'', File [1] True True)] True True)] True True)]
             True True,
      events = []\<rparr>
   = Some (Inr \<lparr>fs = Dir [(''r'', Dir [(''a'', File [1] True True)] True True)] True True,
                events = [Info_Synchronizing [''r'', ''s'', ''a''] [''r'', ''a''],
                          Info_DirRemoved [''r'', ''s'']]\<rparr>)"
    by code_simp
  have d: "sync_folders 3 [''s''] [''r'']
     \<lparr>fs = Dir [(''s'', Dir [(''d'', Dir [(''x'', File [1] True True)] False True)] True True),
                (''r'', Dir [] True True)] True True, events = []\<rparr>
   = Some (Inr \<lparr>fs = Dir [(''s'', Dir [(''d'', Dir [(''x'', File [1] True True)] False True)]
                                   True True),
                          (''r'', Dir [(''d'', Dir [] True True)] True True)] True True,
                events = [Info_DirCreated [''r'', ''d'']]\<rparr>)"
    by code_simp
  have e: "sync_folders 3 [''s''] [''r'']
     \<lparr>fs = Dir [(''s'', Dir [(''d'', Dir [] True True)] True True),
                (''r'', Dir [(''d'', Dir [(''x'', File [1] True True)] False True)] True True)]
             True True, events = []\<rparr>
   = Some (Inr \<lparr>fs = Dir [(''s'', Dir [(''d'', Dir [] True True)] True True),
                          (''r'', Dir [(''d'', Dir [(''x'', File [1] True True)] False True)]
                                   True True)] True True,
                events = []\<rparr>)"
    by code_simp
  have f: "lookup (Dir [(''r'', Dir [(''a'', File [1] True True)] True True)] True True)
          ([''r''] @ [''a'']) = Some (File [1] True True)"
      "lookup (Dir [(''r'', Dir [(''a'', File [1] True True)] True True)] True True)
          ([''r'', ''s''] @ [''a'']) = None"
      "[''s''] \<parallel> [''r'']"
    by (simp_all add: parallel_def)
  show ?thesis
    by (intro conjI) (rule a b c d e f collision_differs)+
qed

theorem convergence_witness:
  "[''s''] \<parallel> [''r''] \<and>
   sync_folders 3 [''s''] [''r'']
     \<lparr>fs = Dir [(''s'', Dir [(''d'', Dir [(''g'', File [2] True True)] True True),
                            (''f'', File [1] True False)] True True),
                (''r'', Dir [(''x'', File [] True True)] True True)] True True, events = []\<rparr>
   = Some (Inr \<lparr>fs = Dir [(''s'', Dir [(''d'', Dir [(''g'', File [2] True True)] True True),
                                      (''f'', File [1] True False)] True True),
                          (''r'', Dir [(''d'', Dir [(''g'', File [2] True True)] True True),
                                      (''f'', File [1] True False)] True True)] True True,
                events = [Info_DirCreated [''r'', ''d''],
                          Info_Synchronizing [''s'', ''f''] [''r'', ''f''],
                          Info_Synchronizing [''s'', ''d'', ''g''] [''r'', ''d'', ''g''],
                          Info_FileRemoved [''r'', ''x'']]\<rparr>) \<and>
   conflict_free (Dir [(''s'', Dir [(''d'', Dir [(''g'', File [2] True True)] True True),
                                   (''f'', File [1] True False)] True True),
                       (''r'', Dir [(''x'', File [] True True)] True True)] True True)
                 [''s''] [''r''] \<and>
   all_listable (Dir [(''s'', Dir [(''d'', Dir [(''g'', File [2] True True)] True True),
                                  (''f'', File [1] True False)] True True),
                      (''r'', Dir [(''x'', File [] True True)] True True)] True True) [''s''] \<and>
   all_listable (Dir [(''s'', Dir [(''d'', Dir [(''g'', File [2] True True)] True True),
                                  (''f'', File [1] True False)] True True),
                      (''r'', Dir [(''x'', File [] True True)] True True)] True True) [''r''] \<and>
   converged (Dir [(''s'', Dir [(''d'', Dir [(''g'', File [2] True True)] True True),
                               (''f'', File [1] True False)] True True),
                   (''r'', Dir [(''d'', Dir [(''g'', File [2] True True)] True True),
                               (''f'', File [1] True False)] True True)] True True)
             [''s''] [''r'']"
proof -
  let ?st = "\<lparr>fs = Dir [(''s'', Dir [(''d'', Dir [(''g'', File [2] True True)] True True),
                            (''f'', File [1] True False)] True True),
                (''r'', Dir [(''x'', File [] True True)] True True)] True True, events = []\<rparr>"
  let ?st' = "\<lparr>fs = Dir [(''s'', Dir [(''d'', Dir [(''g'', File [2] True True)] True True),
                                      (''f'', File [1] True False)] True True),
                          (''r'', Dir [(''d'', Dir [(''g'', File [2] True True)] True True),
                                      (''f'', File [1] True False)] True True)] True True,
                events = [Info_DirCreated [''r'', ''d''],
                          Info_Synchronizing [''s'', ''f''] [''r'', ''f''],
                          Info_Synchronizing [''s'', ''d'', ''g''] [''r'', ''d'', ''g''],
                          Info_FileRemoved [''r'', ''x'']]\<rparr>"
  have h1: "[''s''] \<parallel> [''r'']" by (simp add: parallel_def)
  have h2: "sync_folders 3 [''s''] [''r''] ?st = Some (Inr ?st')" by code_simp
  have h3: "clean ?st'" by (simp add: clean_def)
  have h4: "conflict_free (fs ?st) [''s''] [''r'']"
    unfolding conflict_free_def
  proof (intro allI)
    fix p :: path
    show "\<not> (isdir (fs ?st) ([''s''] @ p) \<and> isfile (fs ?st) ([''r''] @ p))"
      by (cases p; cases "tl p")
         (auto simp: isdir_def isfile_def lookup_Cons split: option.splits node.splits if_splits)
  qed
  have h5: "all_listable (fs ?st) [''s'']"
    unfolding all_listable_def
  proof (intro allI impI)
    fix p :: path assume "isdir (fs ?st) ([''s''] @ p)"
    then show "listable (fs ?st) ([''s''] @ p)"
      by (cases p; cases "tl p"; cases "tl (tl p)")
         (auto simp: isdir_def listable_def lookup_Cons split: option.splits node.splits if_splits)
  qed
  have h6: "all_listable (fs ?st) [''r'']"
    unfolding all_listable_def
  proof (intro allI impI)
    fix p :: path assume "isdir (fs ?st) ([''r''] @ p)"
    then show "listable (fs ?st) ([''r''] @ p)"
      by (cases p; cases "tl p")
         (auto simp: isdir_def listable_def lookup_Cons split: option.splits node.splits if_splits)
  qed
  from convergence [OF h1 h2 h3 h4 h5 h6] have r: "converged (fs ?st') [''s''] [''r'']" by blast
  show ?thesis
    by (intro conjI) (use h1 h2 h4 h5 h6 r in simp_all)
qed


lemma lookup_below_None: "lookup root d = None \<Longrightarrow> lookup root (d @ p) = None"
  by (simp add: lookup_append)




lemma only_removes_refl: "only_removes s s"
  by (simp add: only_removes_def)

lemma only_removes_clean: "only_removes a b \<Longrightarrow> clean b \<Longrightarrow> clean a"
  by (auto simp: only_removes_def clean_def)

lemma only_removes_trans:
  assumes ab: "only_removes a b" and bc: "only_removes b c"
  shows "only_removes a c"
proof -
  have ev: "\<exists>es. events c = events a @ es" using ab bc by (auto simp: only_removes_def)
  have "lookup (fs c) q = None \<or>
        map_option shallow (lookup (fs c) q) = map_option shallow (lookup (fs a) q)"
    if cl: "clean c" for q
  proof -
    have clb: "clean b" using only_removes_clean [OF bc cl] .
    from bc cl have 1: "lookup (fs c) q = None \<or>
        map_option shallow (lookup (fs c) q) = map_option shallow (lookup (fs b) q)"
      by (simp add: only_removes_def)
    from ab clb have 2: "lookup (fs b) q = None \<or>
        map_option shallow (lookup (fs b) q) = map_option shallow (lookup (fs a) q)"
      by (simp add: only_removes_def)
    from 1 2 show ?thesis by (cases "lookup (fs c) q") auto
  qed
  with ev show ?thesis by (simp add: only_removes_def)
qed

lemma only_removes_None:
  assumes "only_removes a b" "clean b" "lookup (fs a) q = None"
  shows "lookup (fs b) q = None"
proof -
  from assms(1,2) have "lookup (fs b) q = None \<or>
      map_option shallow (lookup (fs b) q) = map_option shallow (lookup (fs a) q)"
    by (simp add: only_removes_def)
  with assms(3) show ?thesis by auto
qed

lemma rev_rel_only_removes: "rev_rel source replica a b \<Longrightarrow> only_removes a b"
  by (simp add: rev_rel_def only_removes_def frame_rel_def)

lemma only_removes_reverse_body:
  "only_removes st (reverse_body source replica (replica @ q) dirs files st)"
proof -
  have rp: "join source (relpath (replica @ q) replica) = source @ q"
    by (simp add: join_def relpath_def)
  have 1: "only_removes st (fold (prune_file (replica @ q) (source @ q)) files st)"
    by (rule fold_rule [where R = only_removes])
       (auto intro: only_removes_refl rev_rel_only_removes [OF rev_rel_prune_file]
             elim: only_removes_trans)
  have 2: "only_removes s (fold (prune_dir (replica @ q) (source @ q)) dirs s)" for s
    by (rule fold_rule [where R = only_removes])
       (auto intro: only_removes_refl rev_rel_only_removes [OF rev_rel_prune_dir]
             elim: only_removes_trans)
  show ?thesis
    unfolding reverse_body_def Let_def rp using only_removes_trans [OF 1 2] .
qed

lemma only_removes_walk:
  "os_walk n (reverse_body source replica) (replica @ q) st = Some st' \<Longrightarrow> only_removes st st'"
proof (rule os_walk_rule [where R = only_removes and t = replica and d = "replica @ q"])
  fix d dirs files s assume "prefix replica d"
  then obtain q' where "d = replica @ q'" by (auto simp: prefix_def)
  then show "only_removes s (reverse_body source replica d dirs files s)"
    using only_removes_reverse_body by simp
qed (auto intro: only_removes_refl elim: only_removes_trans)

lemma missing_body_removes:
  assumes miss: "lookup (fs st) source = None"
    and sc: "scandir (fs st) replica = Some (dirs, files)"
    and cl: "clean (reverse_body source replica replica dirs files st)"
  shows "lookup (fs (reverse_body source replica replica dirs files st)) (replica @ [x]) = None"
proof -
  let ?R = only_removes
  let ?P = "\<lambda>x s. lookup (fs s) (replica @ [x]) = None"
  define sa where "sa = fold (prune_file replica source) files st"
  define sb where "sb = fold (prune_dir replica source) dirs sa"
  have rp: "join source (relpath replica replica) = source" by (simp add: join_def relpath_def)
  have sb: "reverse_body source replica replica dirs files st = sb"
    by (simp add: reverse_body_def Let_def rp sa_def sb_def)
  have stepf: "?R s (prune_file replica source y s)" for y s
    using rev_rel_only_removes [OF rev_rel_prune_file [of source replica s "[]" y]] by simp
  have stepd: "?R s (prune_dir replica source y s)" for y s
    using rev_rel_only_removes [OF rev_rel_prune_dir [of source replica s "[]" y]] by simp
  have Ra: "?R st sa" unfolding sa_def
    by (rule fold_rule [where R = ?R]) (auto intro: only_removes_refl stepf elim: only_removes_trans)
  have Rb: "?R sa sb" unfolding sb_def
    by (rule fold_rule [where R = ?R]) (auto intro: only_removes_refl stepd elim: only_removes_trans)
  have clb: "clean sb" using cl sb by simp
  have cla: "clean sa" using only_removes_clean [OF Rb clb] .
  have gone: "lookup (fs s') (replica @ [y]) = None"
    if r: "?R st s'" and c: "clean s'" and pr: "pruned (fs s') source replica ([] @ [y])" for s' y
  proof -
    have "lookup (fs s') source = None" using only_removes_None [OF r c miss] .
    then have "lookup (fs s') (source @ [y]) = None" by (rule lookup_below_None)
    with pr show ?thesis by (auto simp: pruned_def path_exists_def split: if_splits)
  qed
  note scs = scandir_Some [OF sc]
  consider (none) "\<not> path_exists (fs st) (replica @ [x])"
    | (sub) "x \<in> set dirs" | (reg) "x \<in> set files"
    using scs(2,3) [of x] by blast
  then have "?P x sb"
  proof cases
    case none
    then have "lookup (fs st) (replica @ [x]) = None" by (simp add: path_exists_def)
    then show ?thesis using only_removes_None [OF only_removes_trans [OF Ra Rb] clb] by blast
  next
    case reg
    have "?P x sa" unfolding sa_def
    proof (rule fold_establish [where R = ?R and G = clean and P = ?P and ?s0.0 = st])
      fix y s assume r: "?R st s" and c: "clean (prune_file replica source y s)"
      have "pruned (fs (prune_file replica source y s)) source replica ([] @ [y])"
        using prune_file_establishes [of replica "[]" source y s] c by simp
      then show "?P y (prune_file replica source y s)"
        using gone [OF only_removes_trans [OF r stepf] c] by blast
    qed (auto intro: only_removes_refl stepf reg cla [unfolded sa_def]
              elim: only_removes_trans only_removes_None only_removes_clean)
    then show ?thesis using only_removes_None [OF Rb clb] by blast
  next
    case sub
    show ?thesis unfolding sb_def
    proof (rule fold_establish [where R = ?R and G = clean and P = ?P and ?s0.0 = st])
      fix y s assume r: "?R st s" and c: "clean (prune_dir replica source y s)"
      have "pruned (fs (prune_dir replica source y s)) source replica ([] @ [y])"
        using prune_dir_establishes [of replica "[]" source y s] c by simp
      then show "?P y (prune_dir replica source y s)"
        using gone [OF only_removes_trans [OF r stepd] c] by blast
    qed (auto intro: only_removes_refl stepd sub Ra clb [unfolded sb_def]
              elim: only_removes_trans only_removes_None only_removes_clean)
  qed
  with sb show ?thesis by simp
qed

lemma missing_reverse_walk:
  assumes miss: "lookup (fs st) source = None" and ls: "listable (fs st) replica"
    and run: "os_walk n (reverse_body source replica) replica st = Some st'" and cl: "clean st'"
  shows "lookup (fs st') (replica @ [x]) = None"
proof -
  from run obtain k where n: "n = Suc k" by (cases n) auto
  from ls obtain dirs files where sc: "scandir (fs st) replica = Some (dirs, files)"
    using scandir_None [of "fs st" replica] by (cases "scandir (fs st) replica") auto
  define sb where "sb = reverse_body source replica replica dirs files st"
  let ?f = "\<lambda>x. os_walk k (reverse_body source replica) (join replica [x])"
  have fe: "for_each ?f dirs sb = Some st'" using run n sc by (simp add: sb_def)
  have relf: "only_removes s s'" if "?f y s = Some s'" for y s s'
    using only_removes_walk [of k source replica "[y]" s s'] that by (simp add: join_def)
  have R: "only_removes sb st'"
    using fe by (rule for_each_rule [where R = only_removes, rotated -1])
                (auto intro: only_removes_refl relf elim: only_removes_trans)
  have clb: "clean sb" using only_removes_clean [OF R cl] .
  have "lookup (fs sb) (replica @ [x]) = None"
    unfolding sb_def using miss sc clb [unfolded sb_def] by (rule missing_body_removes)
  then show ?thesis using only_removes_None [OF R cl] by blast
qed

lemma walk_empty_dir:
  assumes "lookup (fs s) d = Some (Dir [] True w)" and "body d [] [] s = s"
  shows "os_walk (Suc k) body d s = Some s"
  using assms by (simp add: scandir_def)

lemma walk_missing:
  assumes "lookup (fs s) d = None"
  shows "os_walk (Suc k) body d s = Some s"
  using assms by (simp add: scandir_def)

text \<open>
  Claim C10, as amended. The source path does not exist and the replica root does
  not lie inside it. Then \<open>sync_folders\<close> returns, and when it returns without
  raising, the forward pass has left the state it was given as it is (\<open>os.walk\<close> of
  the source yields nothing) and the replica root exists. When moreover no error
  has been logged and the replica root, if it was there before, is a directory
  that can be listed, nothing is left below the replica root and the root is an
  empty directory.
\<close>

theorem missing_source:
  assumes miss: "\<not> path_exists (fs st) source"
    and out: "\<not> strict_prefix source replica"
  shows "(\<exists>n r. sync_folders n source replica st = Some r) \<and>
         (\<forall>n st'. sync_folders n source replica st = Some (Inr st') \<longrightarrow>
            (\<exists>st1. create_replica replica st = Inr st1 \<and>
               os_walk n (forward_body source replica) source st1 = Some st1 \<and>
               os_walk n (reverse_body source replica) replica st1 = Some st') \<and>
            path_exists (fs st') replica \<and>
            (clean st' \<and> (path_exists (fs st) replica \<longrightarrow> listable (fs st) replica) \<longrightarrow>
               (\<forall>p. p \<noteq> [] \<longrightarrow> lookup (fs st') (replica @ p) = None) \<and>
               (\<exists>w. lookup (fs st') replica = Some (Dir [] True w))))"
proof -
  have fb: "forward_body source replica d [] [] s = s" for d s
    by (simp add: forward_body_def Let_def)
  have rb: "reverse_body source replica d [] [] s = s" for d s
    by (simp add: reverse_body_def Let_def)
  have st1: "(lookup (fs st1) source = None \<or>
               source = replica \<and> lookup (fs st1) replica = Some (Dir [] True True)) \<and>
             path_exists (fs st1) replica \<and>
             ((path_exists (fs st) replica \<longrightarrow> listable (fs st) replica) \<longrightarrow>
                listable (fs st1) replica)"
    if c: "create_replica replica st = Inr st1" for st1
  proof -
    from create_replica_cases [of replica st] c
    consider (same) "st1 = st" "path_exists (fs st) replica"
      | (made) root' where "creates replica (Dir [] True True) (fs st) root'"
          "lookup (fs st) replica = None"
          "st1 = logging (Info_ReplicaCreated replica) (st\<lparr>fs := root'\<rparr>)"
      by auto
    then show ?thesis
    proof cases
      case same
      with miss show ?thesis by (simp add: path_exists_def)
    next
      case made
      then have l: "lookup (fs st1) replica = Some (Dir [] True True)" by (simp add: creates_def)
      have "lookup (fs st1) source = None" if "source \<noteq> replica"
      proof -
        from that out have "\<not> prefix source replica" by (simp add: strict_prefix_def)
        with made(1) have "lookup root' source = lookup (fs st) source" by (simp add: creates_def)
        with miss made(3) show ?thesis by (simp add: path_exists_def)
      qed
      with l show ?thesis by (auto simp: path_exists_def listable_def)
    qed
  qed
  have fwd: "os_walk (Suc k) (forward_body source replica) source st1 = Some st1"
    if "create_replica replica st = Inr st1" for st1 k
  proof (cases "lookup (fs st1) source = None")
    case True
    then show ?thesis by (rule walk_missing)
  next
    case False
    with st1 [OF that] have "lookup (fs st1) source = Some (Dir [] True True)" by auto
    then show ?thesis using fb by (rule walk_empty_dir)
  qed
  have ret: "\<exists>n r. sync_folders n source replica st = Some r"
  proof (cases "create_replica replica st")
    case (Inl x)
    then have "sync_folders 0 source replica st = Some (Inl x)" by (simp add: sync_folders_Inl)
    then show ?thesis by blast
  next
    case (Inr st1)
    obtain st3 where 3: "os_walk (Suc (sz (fs st1) replica)) (reverse_body source replica) replica st1
        = Some st3"
      using reverse_walk_terminates [OF lessI, of st1 replica source] by blast
    have "sync_folders (Suc (sz (fs st1) replica)) source replica st = Some (Inr st3)"
      using Inr fwd [OF Inr] 3 by (simp add: sync_folders_def)
    then show ?thesis by blast
  qed
  have main: "(\<exists>st1. create_replica replica st = Inr st1 \<and>
               os_walk n (forward_body source replica) source st1 = Some st1 \<and>
               os_walk n (reverse_body source replica) replica st1 = Some st') \<and>
            path_exists (fs st') replica \<and>
            (clean st' \<and> (path_exists (fs st) replica \<longrightarrow> listable (fs st) replica) \<longrightarrow>
               (\<forall>p. p \<noteq> [] \<longrightarrow> lookup (fs st') (replica @ p) = None) \<and>
               (\<exists>w. lookup (fs st') replica = Some (Dir [] True w)))"
    if run: "sync_folders n source replica st = Some (Inr st')" for n st'
  proof -
    from run obtain st1 st2 where 1: "create_replica replica st = Inr st1"
      and 2: "os_walk n (forward_body source replica) source st1 = Some st2"
      and 3: "os_walk n (reverse_body source replica) replica st2 = Some st'"
      by (rule sync_folders_Inr)
    from 2 obtain k where n: "n = Suc k" by (cases n) auto
    have eq: "st2 = st1" using 2 fwd [OF 1, of k] n by simp
    note s1 = st1 [OF 1]
    have f3: "frame_rel replica st1 st'" using frame_reverse_walk [OF _ 3] eq by simp
    have ex': "path_exists (fs st') replica" using frame_rel_root_exists [OF f3] s1 by blast
    have emp: "(\<forall>p. p \<noteq> [] \<longrightarrow> lookup (fs st') (replica @ p) = None) \<and>
               (\<exists>w. lookup (fs st') replica = Some (Dir [] True w))"
      if cl: "clean st'" and ls0: "path_exists (fs st) replica \<longrightarrow> listable (fs st) replica"
    proof -
      from s1 ls0 have ls: "listable (fs st1) replica" by blast
      have child: "lookup (fs st') (replica @ [x]) = None" for x
      proof (cases "lookup (fs st1) source = None")
        case True
        show ?thesis using missing_reverse_walk [OF True ls _ cl] 3 eq by simp
      next
        case False
        with s1 have l: "lookup (fs st1) replica = Some (Dir [] True True)" by blast
        have "os_walk n (reverse_body source replica) replica st1 = Some st1"
          unfolding n using l rb by (rule walk_empty_dir)
        with 3 eq have "st' = st1" by simp
        with l show ?thesis by (simp add: lookup_append)
      qed
      have gone: "lookup (fs st') (replica @ p) = None" if "p \<noteq> []" for p
      proof -
        from that obtain x p' where "p = x # p'" by (cases p) auto
        then have "replica @ p = (replica @ [x]) @ p'" by simp
        then show ?thesis using lookup_below_None [OF child [of x], of p'] by simp
      qed
      from ls obtain es w where d1: "lookup (fs st1) replica = Some (Dir es True w)"
        by (auto simp: listable_def split: option.splits node.splits)
      have "map_option shallow (lookup (fs st') replica) = map_option shallow (Some (Dir es True w))"
        using frame_rel_root [OF f3] s1 d1 by simp
      then obtain es' where d': "lookup (fs st') replica = Some (Dir es' True w)"
        using shallow_Dir_eq by blast
      have "lookup (Dir es' True w) [x] = None" for x
        using child [of x] d' by (simp add: lookup_append)
      then have "es' = []" by (rule Dir_no_children)
      with d' gone show ?thesis by blast
    qed
    from 1 2 3 eq ex' emp show ?thesis by blast
  qed
  from ret main show ?thesis by blast
qed

text \<open>
  The claim as written fails in four ways.
  \<^enum> Entries may not be removed from the replica directory: the reverse pass logs
    the \<open>PermissionError\<close> of \<open>os.remove\<close> and \<open>r/a\<close> stays.
  \<^enum> The replica root cannot be listed: \<open>os.walk\<close> skips it in silence, no error
    is logged and \<open>r/a\<close> stays.
  \<^enum> The replica root \<open>s/r\<close> lies inside the missing source \<open>s\<close>: creating the
    replica root creates the source, the walk of the source then yields the entry
    \<open>r\<close>, and the forward pass creates \<open>s/r/r\<close> inside the replica.
  \<^enum> The replica root is missing and cannot be created: the exception leaves
    \<open>sync_folders\<close> and there is no replica root.
\<close>

theorem missing_source_counterexample:
  "sync_folders 3 [''s''] [''r'']
     \<lparr>fs = Dir [(''r'', Dir [(''a'', File [1] True True)] True False)] True True, events = []\<rparr>
   = Some (Inr \<lparr>fs = Dir [(''r'', Dir [(''a'', File [1] True True)] True False)] True True,
                events = [Error_FileRemove [''r'', ''a''] PermissionError]\<rparr>) \<and>
   sync_folders 3 [''s''] [''r'']
     \<lparr>fs = Dir [(''r'', Dir [(''a'', File [1] True True)] False True)] True True, events = []\<rparr>
   = Some (Inr \<lparr>fs = Dir [(''r'', Dir [(''a'', File [1] True True)] False True)] True True,
                events = []\<rparr>) \<and>
   create_replica [''s'', ''r''] \<lparr>fs = Dir [] True True, events = []\<rparr>
   = Inr \<lparr>fs = Dir [(''s'', Dir [(''r'', Dir [] True True)] True True)] True True,
          events = [Info_ReplicaCreated [''s'', ''r'']]\<rparr> \<and>
   scandir (Dir [(''s'', Dir [(''r'', Dir [] True True)] True True)] True True) [''s'']
   = Some ([''r''], []) \<and>
   forward_body [''s''] [''s'', ''r''] [''s''] [''r''] []
     \<lparr>fs = Dir [(''s'', Dir [(''r'', Dir [] True True)] True True)] True True,
      events = [Info_ReplicaCreated [''s'', ''r'']]\<rparr>
   = \<lparr>fs = Dir [(''s'', Dir [(''r'', Dir [(''r'', Dir [] True True)] True True)] True True)]
            True True,
      events = [Info_ReplicaCreated [''s'', ''r''], Info_DirCreated [''s'', ''r'', ''r'']]\<rparr> \<and>
   sync_folders 6 [''s''] [''s'', ''r''] \<lparr>fs = Dir [] True True, events = []\<rparr> = None \<and>
   sync_folders 3 [''s''] [''r''] \<lparr>fs = Dir [] True False, events = []\<rparr>
   = Some (Inl (PermissionError,
                \<lparr>fs = Dir [] True False, events = [Error_ReplicaPermission [''r'']]\<rparr>))"
proof -
  have a: "sync_folders 3 [''s''] [''r'']
     \<lparr>fs = Dir [(''r'', Dir [(''a'', File [1] True True)] True False)] True True, events = []\<rparr>
   = Some (Inr \<lparr>fs = Dir [(''r'', Dir [(''a'', File [1] True True)] True False)] True True,
                events = [Error_FileRemove [''r'', ''a''] PermissionError]\<rparr>)"
    by code_simp
  have b: "sync_folders 3 [''s''] [''r'']
     \<lparr>fs = Dir [(''r'', Dir [(''a'', File [1] True True)] False True)] True True, events = []\<rparr>
   = Some (Inr \<lparr>fs = Dir [(''r'', Dir [(''a'', File [1] True True)] False True)] True True,
                events = []\<rparr>)"
    by code_simp
  have c: "create_replica [''s'', ''r''] \<lparr>fs = Dir [] True True, events = []\<rparr>
   = Inr \<lparr>fs = Dir [(''s'', Dir [(''r'', Dir [] True True)] True True)] True True,
          events = [Info_ReplicaCreated [''s'', ''r'']]\<rparr>"
    by code_simp
  have d: "scandir (Dir [(''s'', Dir [(''r'', Dir [] True True)] True True)] True True) [''s'']
   = Some ([''r''], [])"
    by code_simp
  have e: "forward_body [''s''] [''s'', ''r''] [''s''] [''r''] []
     \<lparr>fs = Dir [(''s'', Dir [(''r'', Dir [] True True)] True True)] True True,
      events = [Info_ReplicaCreated [''s'', ''r'']]\<rparr>
   = \<lparr>fs = Dir [(''s'', Dir [(''r'', Dir [(''r'', Dir [] True True)] True True)] True True)]
            True True,
      events = [Info_ReplicaCreated [''s'', ''r''], Info_DirCreated [''s'', ''r'', ''r'']]\<rparr>"
    by code_simp
  have f: "sync_folders 6 [''s''] [''s'', ''r''] \<lparr>fs = Dir [] True True, events = []\<rparr> = None"
    by code_simp
  have g: "sync_folders 3 [''s''] [''r''] \<lparr>fs = Dir [] True False, events = []\<rparr>
   = Some (Inl (PermissionError,
                \<lparr>fs = Dir [] True False, events = [Error_ReplicaPermission [''r'']]\<rparr>))"
    by code_simp
  show ?thesis by (intro conjI) (rule a b c d e f g)+
qed

theorem missing_source_witness:
  "\<not> path_exists (fs \<lparr>fs = Dir [(''r'', Dir [(''a'', File [1] True True),
                                            (''d'', Dir [(''b'', File [2] True True)] True True)]
                                       True True)] True True,
                      events = []\<rparr>) [''s''] \<and>
   \<not> strict_prefix [''s''] [''r''] \<and>
   sync_folders 3 [''s''] [''r'']
     \<lparr>fs = Dir [(''r'', Dir [(''a'', File [1] True True),
                            (''d'', Dir [(''b'', File [2] True True)] True True)] True True)]
             True True,
      events = []\<rparr>
   = Some (Inr \<lparr>fs = Dir [(''r'', Dir [] True True)] True True,
                events = [Info_FileRemoved [''r'', ''a''], Info_DirRemoved [''r'', ''d'']]\<rparr>) \<and>
   listable (fs \<lparr>fs = Dir [(''r'', Dir [(''a'', File [1] True True),
                                      (''d'', Dir [(''b'', File [2] True True)] True True)]
                                 True True)] True True,
                events = []\<rparr>) [''r''] \<and>
   (\<exists>w. lookup (Dir [(''r'', Dir [] True True)] True True) [''r''] = Some (Dir [] True w)) \<and>
   (\<forall>p. p = [] \<or> lookup (Dir [(''r'', Dir [] True True)] True True) ([''r''] @ p) = None)"
proof -
  let ?st = "\<lparr>fs = Dir [(''r'', Dir [(''a'', File [1] True True),
                            (''d'', Dir [(''b'', File [2] True True)] True True)] True True)]
             True True,
      events = []\<rparr>"
  let ?st' = "\<lparr>fs = Dir [(''r'', Dir [] True True)] True True,
                events = [Info_FileRemoved [''r'', ''a''], Info_DirRemoved [''r'', ''d'']]\<rparr>"
  have h1: "\<not> path_exists (fs ?st) [''s'']" by (simp add: path_exists_def)
  have h2: "\<not> strict_prefix [''s''] [''r'']" by simp
  have h3: "sync_folders 3 [''s''] [''r''] ?st = Some (Inr ?st')" by code_simp
  have h4: "clean ?st'" by (simp add: clean_def)
  have h5: "listable (fs ?st) [''r'']" by (simp add: listable_def)
  note t = missing_source [OF h1 h2, THEN conjunct2, rule_format, OF h3]
  from t have "clean ?st' \<and> (path_exists (fs ?st) [''r''] \<longrightarrow> listable (fs ?st) [''r'']) \<longrightarrow>
       (\<forall>p. p \<noteq> [] \<longrightarrow> lookup (fs ?st') ([''r''] @ p) = None) \<and>
       (\<exists>w. lookup (fs ?st') [''r''] = Some (Dir [] True w))"
    by (elim conjE)
  with h4 h5 have r: "(\<forall>p. p \<noteq> [] \<longrightarrow> lookup (fs ?st') ([''r''] @ p) = None) \<and>
       (\<exists>w. lookup (fs ?st') [''r''] = Some (Dir [] True w))"
    by blast
  then have r1: "\<exists>w. lookup (Dir [(''r'', Dir [] True True)] True True) [''r''] = Some (Dir [] True w)"
    by simp
  from r have r2: "\<forall>p. p = [] \<or> lookup (Dir [(''r'', Dir [] True True)] True True) ([''r''] @ p) = None"
    by (metis state.select_convs(1))
  show ?thesis
    by (intro conjI) (rule h1 h2 h3 h5 r1 r2)+
qed

lemma mirrored_cong:
  assumes "map_option shallow (lookup root' (source @ p)) = map_option shallow (lookup root (source @ p))"
    and "lookup root' (replica @ p) = lookup root (replica @ p)"
    and "mirrored root source replica p"
  shows "mirrored root' source replica p"
proof (cases "lookup root (source @ p)")
  case None
  with assms(1) have "lookup root' (source @ p) = None" by simp
  then show ?thesis by (rule mirrored_None)
next
  case (Some n)
  show ?thesis
  proof (cases n)
    case (File c r w)
    with Some assms(1) have "lookup root' (source @ p) = Some (File c r w)"
      using shallow_eq_FileD [of "lookup root' (source @ p)" c r w] by (simp add: shallow_def)
    with assms(2,3) Some File show ?thesis by (simp add: mirrored_def)
  next
    case (Dir es ls w)
    with Some assms(1) obtain es' where "lookup root' (source @ p) = Some (Dir es' ls w)"
      using shallow_Dir_eq [of "lookup root' (source @ p)" es ls w] by (auto simp: shallow_def)
    with assms(2,3) Some Dir show ?thesis by (simp add: mirrored_def path_exists_def)
  qed
qed

lemma del_source_replica:
  assumes "source \<parallel> replica"
  shows "lookup (del (source @ p) root) (replica @ q) = lookup root (replica @ q)"
proof -
  have "(source @ p) \<parallel> replica" using parallel_above [OF assms, of "source @ p"] by simp
  then have "(replica @ q) \<parallel> (source @ p)" using parallel_below [of "source @ p" replica "replica @ q"] by simp
  then show ?thesis using lookup_del_parallel [of "source @ p" "replica @ q" root]
    by (simp add: parallel_commute)
qed

lemma shallow_exists:
  "map_option shallow (lookup a x) = map_option shallow (lookup b y) \<Longrightarrow>
     path_exists a x \<longleftrightarrow> path_exists b y"
  by (cases "lookup a x"; cases "lookup b y") (simp_all add: path_exists_def)

lemma walked_kept:
  assumes np: "\<not> prefix p q"
    and k: "\<And>r. \<not> prefix p r \<Longrightarrow>
              map_option shallow (lookup a (base @ r)) = map_option shallow (lookup b (base @ r))"
  shows "walked a base q = walked b base q"
proof -
  have "listable a (base @ r) = listable b (base @ r)" if "strict_prefix r q" for r
  proof -
    have "\<not> prefix p r"
    proof
      assume "prefix p r"
      with that have "prefix p q" by (meson prefix_order.dual_order.strict_implies_order prefix_order.trans)
      with np show False by simp
    qed
    then show ?thesis using k listable_shallow by blast
  qed
  then show ?thesis by (simp add: walked_def)
qed

text \<open>
  Claim C5, as amended. Take two different roots neither of which lies inside the
  other. A call of \<open>sync_folders\<close> has returned and left a replica tree all of
  whose directories can be listed; one entry at the relative path \<open>p\<close> (a file, or
  a directory with all it holds) is then removed from the source tree, and
  \<open>sync_folders\<close> runs again and returns with no error in the log. Then nothing
  exists at or below \<open>p\<close> in the replica, and every other replica entry, the root
  included, has the kind, content and permissions it had. If all source
  directories can be listed, the replica entry at \<open>p\<close> was there before.
\<close>

theorem deletion_propagates:
  assumes par: "source \<parallel> replica"
    and first: "sync_folders n source replica st0 = Some (Inr st)"
    and al: "all_listable (fs st) replica"
    and p: "p \<noteq> []" and ex: "path_exists (fs st) (source @ p)"
    and rerun: "sync_folders m source replica (st\<lparr>fs := del (source @ p) (fs st)\<rparr>) = Some (Inr st2)"
    and cl2: "clean st2"
  shows "(\<forall>q. lookup (fs st2) (replica @ p @ q) = None) \<and>
         (\<forall>q. \<not> prefix p q \<longrightarrow>
              map_option shallow (lookup (fs st2) (replica @ q)) =
              map_option shallow (lookup (fs st) (replica @ q))) \<and>
         (all_listable (fs st) source \<longrightarrow> path_exists (fs st) (replica @ p))"
proof -
  let ?d = "st\<lparr>fs := del (source @ p) (fs st)\<rparr>"
  have "frame_rel replica ?d (final_state (Inr st2))" using sync_folders_frame [OF rerun] .
  then have "frame_rel replica ?d st2" by (simp add: final_state_def)
  then have "clean ?d" using cl2 by (rule frame_rel_clean)
  then have cl: "clean st" by (simp add: clean_def)
  have s: "settled (fs st) source replica" using pass_settles(1) [OF par first cl] .
  then have exr: "path_exists (fs st) replica"
    and mir: "\<And>q. q \<noteq> [] \<Longrightarrow> walked (fs st) source q \<Longrightarrow> mirrored (fs st) source replica q"
    and pru: "\<And>q. q \<noteq> [] \<Longrightarrow> walked (fs st) replica q \<Longrightarrow> pruned (fs st) source replica q"
    by (simp_all add: settled_def)
  have rep: "lookup (fs ?d) (replica @ q) = lookup (fs st) (replica @ q)" for q
    using del_source_replica [OF par] by simp
  have src_kept: "map_option shallow (lookup (fs ?d) (source @ q)) =
      map_option shallow (lookup (fs st) (source @ q))" if "\<not> prefix p q" for q
    using del_kept [of "source @ p" "source @ q" "fs st"] that by simp
  have src_gone: "lookup (fs ?d) (source @ p @ q) = None" for q
    using lookup_del_below [of "source @ p" "fs st" q] p by simp
  have m: "mirrored (fs ?d) source replica q" if q: "q \<noteq> []" and w: "walked (fs ?d) source q" for q
  proof (cases "prefix p q")
    case True
    then obtain q' where "q = p @ q'" by (auto simp: prefix_def)
    then show ?thesis using src_gone [of q'] by (simp add: mirrored_None)
  next
    case False
    have "walked (fs st) source q"
      using walked_kept [of p q "fs ?d" source "fs st", OF False src_kept] w by simp
    then show ?thesis using mirrored_cong [OF src_kept [OF False] rep mir [OF q]] by simp
  qed
  have exd: "path_exists (fs ?d) replica" using exr rep [of "[]"] by (simp add: path_exists_def)
  from rerun obtain st1 st2' where 1: "create_replica replica ?d = Inr st1"
    and 2: "os_walk m (forward_body source replica) source st1 = Some st2'"
    and 3: "os_walk m (reverse_body source replica) replica st2' = Some st2"
    by (rule sync_folders_Inr)
  from 1 exd have e1: "st1 = ?d" by (simp add: create_replica_def)
  have e2: "st2' = ?d"
  proof (rule forward_walk_id)
    fix q assume "q \<noteq> []" "walked (fs ?d) source q"
    then show "mirrored (fs ?d) source replica q" by (rule m)
  next
    show "os_walk m (forward_body source replica) source ?d = Some st2'" using 2 e1 by simp
  qed
  have 3: "os_walk m (reverse_body source replica) (replica @ []) ?d = Some st2" using 3 e2 by simp
  have R: "rev_rel source replica ?d st2" using rev_rel_walk [OF par 3] .
  then have F: "frame_rel replica ?d st2" by (simp add: rev_rel_def)
  have "all_listable (fs ?d) replica"
    using all_listable_cong [of "fs ?d" replica "fs st", OF rep] al by simp
  then have al2: "all_listable (fs st2) replica" using rev_rel_all_listable [OF R cl2] by simp
  have a: "lookup (fs st2) (replica @ p @ q) = None" for q
  proof (rule ccontr)
    assume "lookup (fs st2) (replica @ p @ q) \<noteq> None"
    then have e: "path_exists (fs st2) (replica @ p @ q)" by (simp add: path_exists_def)
    then have "walked (fs st2) (replica @ []) (p @ q)"
      using all_listable_walked [OF al2, of "p @ q"] by simp
    then have "pruned (fs st2) source replica ([] @ (p @ q))"
      using reverse_walk_covers [OF par 3 cl2, of "p @ q"] p by simp
    moreover have "lookup (fs st2) (source @ p @ q) = None"
      using rev_rel_source [OF par R, of "p @ q"] src_gone [of q] by simp
    ultimately show False using e by (simp add: pruned_def path_exists_def)
  qed
  have b: "map_option shallow (lookup (fs st2) (replica @ q)) =
           map_option shallow (lookup (fs st) (replica @ q))" if np: "\<not> prefix p q" for q
  proof (cases "q = []")
    case True
    then show ?thesis using frame_rel_root [OF F exd] rep [of "[]"] by simp
  next
    case False
    show ?thesis
    proof (cases "lookup (fs ?d) (replica @ q)")
      case None
      with rev_rel_antitone [OF R cl2, of "replica @ q"]
      have "map_option shallow (lookup (fs st2) (replica @ q)) = None" by auto
      with None rep [of q] show ?thesis by simp
    next
      case (Some x)
      with rep [of q] have e: "path_exists (fs st) (replica @ q)" by (simp add: path_exists_def)
      have "walked (fs st) replica q" using all_listable_walked [OF al e] .
      with pru [OF False] e have "path_exists (fs st) (source @ q)" by (simp add: pruned_def)
      then have "path_exists (fs ?d) (source @ q)"
        using shallow_exists [OF src_kept [OF np]] by simp
      from rev_rel_kept [OF R cl2 this] rep [of q] show ?thesis by simp
    qed
  qed
  have c: "path_exists (fs st) (replica @ p)" if "all_listable (fs st) source"
  proof -
    have "walked (fs st) source p" using all_listable_walked [OF that ex] .
    with mir [OF p] ex show ?thesis
      by (auto simp: mirrored_def path_exists_def split: option.splits node.splits)
  qed
  from a b c show ?thesis by blast
qed

text \<open>
  The claim as written fails in three ways; each time the pass before the removal
  returns with no error logged and changes nothing.
  \<^enum> Entries may not be removed from the replica directory \<open>r\<close>: after \<open>s/a\<close> has
    been removed the second pass logs the \<open>PermissionError\<close> of \<open>shutil.rmtree\<close> and
    \<open>r/a\<close> stays.
  \<^enum> The replica directory \<open>r/d\<close> cannot be listed: after \<open>s/d/x\<close> has been removed
    \<open>os.walk\<close> skips \<open>r/d\<close> in silence and \<open>r/d/x\<close> stays, with no error logged.
  \<^enum> The replica \<open>s/r\<close> lies inside the source \<open>s\<close>, which cannot be listed: after
    the directory \<open>s/r\<close> has been removed from the source the second pass creates
    the replica root anew, so that the replica entry \<open>a\<close> is gone with it.
\<close>

theorem deletion_propagates_counterexample:
  "sync_folders 3 [''s''] [''r'']
     \<lparr>fs = Dir [(''s'', Dir [(''a'', Dir [] True True)] True True),
                (''r'', Dir [(''a'', Dir [] True True)] True False)] True True, events = []\<rparr>
   = Some (Inr \<lparr>fs = Dir [(''s'', Dir [(''a'', Dir [] True True)] True True),
                          (''r'', Dir [(''a'', Dir [] True True)] True False)] True True,
                events = []\<rparr>) \<and>
   sync_folders 3 [''s''] [''r'']
     (\<lparr>fs = Dir [(''s'', Dir [(''a'', Dir [] True True)] True True),
                 (''r'', Dir [(''a'', Dir [] True True)] True False)] True True, events = []\<rparr>
      \<lparr>fs := del ([''s''] @ [''a''])
               (Dir [(''s'', Dir [(''a'', Dir [] True True)] True True),
                     (''r'', Dir [(''a'', Dir [] True True)] True False)] True True)\<rparr>)
   = Some (Inr \<lparr>fs = Dir [(''s'', Dir [] True True),
                          (''r'', Dir [(''a'', Dir [] True True)] True False)] True True,
                events = [Error_DirRemove [''r'', ''a''] PermissionError]\<rparr>) \<and>
   sync_folders 4 [''s''] [''r'']
     \<lparr>fs = Dir [(''s'', Dir [(''d'', Dir [(''x'', Dir [] True True)] True True)] True True),
                (''r'', Dir [(''d'', Dir [(''x'', Dir [] True True)] False True)] True True)]
             True True, events = []\<rparr>
   = Some (Inr \<lparr>fs = Dir [(''s'', Dir [(''d'', Dir [(''x'', Dir [] True True)] True True)]
                                   True True),
                          (''r'', Dir [(''d'', Dir [(''x'', Dir [] True True)] False True)]
                                   True True)] True True, events = []\<rparr>) \<and>
   sync_folders 4 [''s''] [''r'']
     (\<lparr>fs = Dir [(''s'', Dir [(''d'', Dir [(''x'', Dir [] True True)] True True)] True True),
                 (''r'', Dir [(''d'', Dir [(''x'', Dir [] True True)] False True)] True True)]
              True True, events = []\<rparr>
      \<lparr>fs := del ([''s''] @ [''d'', ''x''])
               (Dir [(''s'', Dir [(''d'', Dir [(''x'', Dir [] True True)] True True)] True True),
                     (''r'', Dir [(''d'', Dir [(''x'', Dir [] True True)] False True)] True True)]
                  True True)\<rparr>)
   = Some (Inr \<lparr>fs = Dir [(''s'', Dir [(''d'', Dir [] True True)] True True),
                          (''r'', Dir [(''d'', Dir [(''x'', Dir [] True True)] False True)]
                                   True True)] True True, events = []\<rparr>) \<and>
   sync_folders 4 [''s''] [''s'', ''r'']
     \<lparr>fs = Dir [(''s'', Dir [(''r'', Dir [(''a'', File [1] True True)] True True),
                            (''a'', File [1] True True)] False True)] True True, events = []\<rparr>
   = Some (Inr \<lparr>fs = Dir [(''s'', Dir [(''r'', Dir [(''a'', File [1] True True)] True True),
                                      (''a'', File [1] True True)] False True)] True True,
                events = []\<rparr>) \<and>
   sync_folders 4 [''s''] [''s'', ''r'']
     (\<lparr>fs = Dir [(''s'', Dir [(''r'', Dir [(''a'', File [1] True True)] True True),
                             (''a'', File [1] True True)] False True)] True True, events = []\<rparr>
      \<lparr>fs := del ([''s''] @ [''r''])
               (Dir [(''s'', Dir [(''r'', Dir [(''a'', File [1] True True)] True True),
                                 (''a'', File [1] True True)] False True)] True True)\<rparr>)
   = Some (Inr \<lparr>fs = Dir [(''s'', Dir [(''a'', File [1] True True), (''r'', Dir [] True True)]
                                   False True)] True True,
                events = [Info_ReplicaCreated [''s'', ''r'']]\<rparr>)"
proof -
  have a1: "sync_folders 3 [''s''] [''r'']
     \<lparr>fs = Dir [(''s'', Dir [(''a'', Dir [] True True)] True True),
                (''r'', Dir [(''a'', Dir [] True True)] True False)] True True, events = []\<rparr>
   = Some (Inr \<lparr>fs = Dir [(''s'', Dir [(''a'', Dir [] True True)] True True),
                          (''r'', Dir [(''a'', Dir [] True True)] True False)] True True,
                events = []\<rparr>)"
    by code_simp
  have a2: "sync_folders 3 [''s''] [''r'']
     (\<lparr>fs = Dir [(''s'', Dir [(''a'', Dir [] True True)] True True),
                 (''r'', Dir [(''a'', Dir [] True True)] True False)] True True, events = []\<rparr>
      \<lparr>fs := del ([''s''] @ [''a''])
               (Dir [(''s'', Dir [(''a'', Dir [] True True)] True True),
                     (''r'', Dir [(''a'', Dir [] True True)] True False)] True True)\<rparr>)
   = Some (Inr \<lparr>fs = Dir [(''s'', Dir [] True True),
                          (''r'', Dir [(''a'', Dir [] True True)] True False)] True True,
                events = [Error_DirRemove [''r'', ''a''] PermissionError]\<rparr>)"
    by code_simp
  have b1: "sync_folders 4 [''s''] [''r'']
     \<lparr>fs = Dir [(''s'', Dir [(''d'', Dir [(''x'', Dir [] True True)] True True)] True True),
                (''r'', Dir [(''d'', Dir [(''x'', Dir [] True True)] False True)] True True)]
             True True, events = []\<rparr>
   = Some (Inr \<lparr>fs = Dir [(''s'', Dir [(''d'', Dir [(''x'', Dir [] True True)] True True)]
                                   True True),
                          (''r'', Dir [(''d'', Dir [(''x'', Dir [] True True)] False True)]
                                   True True)] True True, events = []\<rparr>)"
    by code_simp
  have b2: "sync_folders 4 [''s''] [''r'']
     (\<lparr>fs = Dir [(''s'', Dir [(''d'', Dir [(''x'', Dir [] True True)] True True)] True True),
                 (''r'', Dir [(''d'', Dir [(''x'', Dir [] True True)] False True)] True True)]
              True True, events = []\<rparr>
      \<lparr>fs := del ([''s''] @ [''d'', ''x''])
               (Dir [(''s'', Dir [(''d'', Dir [(''x'', Dir [] True True)] True True)] True True),
                     (''r'', Dir [(''d'', Dir [(''x'', Dir [] True True)] False True)] True True)]
                  True True)\<rparr>)
   = Some (Inr \<lparr>fs = Dir [(''s'', Dir [(''d'', Dir [] True True)] True True),
                          (''r'', Dir [(''d'', Dir [(''x'', Dir [] True True)] False True)]
                                   True True)] True True, events = []\<rparr>)"
    by code_simp
  have c1: "sync_folders 4 [''s''] [''s'', ''r'']
     \<lparr>fs = Dir [(''s'', Dir [(''r'', Dir [(''a'', File [1] True True)] True True),
                            (''a'', File [1] True True)] False True)] True True, events = []\<rparr>
   = Some (Inr \<lparr>fs = Dir [(''s'', Dir [(''r'', Dir [(''a'', File [1] True True)] True True),
                                      (''a'', File [1] True True)] False True)] True True,
                events = []\<rparr>)"
    by code_simp
  have c2: "sync_folders 4 [''s''] [''s'', ''r'']
     (\<lparr>fs = Dir [(''s'', Dir [(''r'', Dir [(''a'', File [1] True True)] True True),
                             (''a'', File [1] True True)] False True)] True True, events = []\<rparr>
      \<lparr>fs := del ([''s''] @ [''r''])
               (Dir [(''s'', Dir [(''r'', Dir [(''a'', File [1] True True)] True True),
                                 (''a'', File [1] True True)] False True)] True True)\<rparr>)
   = Some (Inr \<lparr>fs = Dir [(''s'', Dir [(''a'', File [1] True True), (''r'', Dir [] True True)]
                                   False True)] True True,
                events = [Info_ReplicaCreated [''s'', ''r'']]\<rparr>)"
    by code_simp
  show ?thesis by (intro conjI) (rule a1 a2 b1 b2 c1 c2)+
qed

theorem deletion_propagates_witness:
  "[''s''] \<parallel> [''r''] \<and>
   sync_folders 3 [''s''] [''r'']
     \<lparr>fs = Dir [(''s'', Dir [(''a'', Dir [(''b'', File [2] True True)] True True),
                            (''c'', File [3] True True)] True True),
                (''r'', Dir [] True True)] True True, events = []\<rparr>
   = Some (Inr \<lparr>fs = Dir [(''s'', Dir [(''a'', Dir [(''b'', File [2] True True)] True True),
                                      (''c'', File [3] True True)] True True),
                          (''r'', Dir [(''a'', Dir [(''b'', File [2] True True)] True True),
                                      (''c'', File [3] True True)] True True)] True True,
                events = [Info_DirCreated [''r'', ''a''],
                          Info_Synchronizing [''s'', ''c''] [''r'', ''c''],
                          Info_Synchronizing [''s'', ''a'', ''b''] [''r'', ''a'', ''b'']]\<rparr>) \<and>
   all_listable (Dir [(''s'', Dir [(''a'', Dir [(''b'', File [2] True True)] True True),
                                  (''c'', File [3] True True)] True True),
                      (''r'', Dir [(''a'', Dir [(''b'', File [2] True True)] True True),
                                  (''c'', File [3] True True)] True True)] True True) [''r''] \<and>
   sync_folders 3 [''s''] [''r'']
     (\<lparr>fs = Dir [(''s'', Dir [(''a'', Dir [(''b'', File [2] True True)] True True),
                             (''c'', File [3] True True)] True True),
                 (''r'', Dir [(''a'', Dir [(''b'', File [2] True True)] True True),
                             (''c'', File [3] True True)] True True)] True True,
       events = [Info_DirCreated [''r'', ''a''],
                 Info_Synchronizing [''s'', ''c''] [''r'', ''c''],
                 Info_Synchronizing [''s'', ''a'', ''b''] [''r'', ''a'', ''b'']]\<rparr>
      \<lparr>fs := del ([''s''] @ [''a''])
               (Dir [(''s'', Dir [(''a'', Dir [(''b'', File [2] True True)] True True),
                                 (''c'', File [3] True True)] True True),
                     (''r'', Dir [(''a'', Dir [(''b'', File [2] True True)] True True),
                                 (''c'', File [3] True True)] True True)] True True)\<rparr>)
   = Some (Inr \<lparr>fs = Dir [(''s'', Dir [(''c'', File [3] True True)] True True),
                          (''r'', Dir [(''c'', File [3] True True)] True True)] True True,
                events = [Info_DirCreated [''r'', ''a''],
                          Info_Synchronizing [''s'', ''c''] [''r'', ''c''],
                          Info_Synchronizing [''s'', ''a'', ''b''] [''r'', ''a'', ''b''],
                          Info_DirRemoved [''r'', ''a'']]\<rparr>) \<and>
   (\<forall>q. lookup (Dir [(''s'', Dir [(''c'', File [3] True True)] True True),
                     (''r'', Dir [(''c'', File [3] True True)] True True)] True True)
           ([''r''] @ [''a''] @ q) = None)"
proof -
  let ?init = "\<lparr>fs = Dir [(''s'', Dir [(''a'', Dir [(''b'', File [2] True True)] True True),
                            (''c'', File [3] True True)] True True),
                (''r'', Dir [] True True)] True True, events = []\<rparr>"
  let ?st = "\<lparr>fs = Dir [(''s'', Dir [(''a'', Dir [(''b'', File [2] True True)] True True),
                                      (''c'', File [3] True True)] True True),
                          (''r'', Dir [(''a'', Dir [(''b'', File [2] True True)] True True),
                                      (''c'', File [3] True True)] True True)] True True,
                events = [Info_DirCreated [''r'', ''a''],
                          Info_Synchronizing [''s'', ''c''] [''r'', ''c''],
                          Info_Synchronizing [''s'', ''a'', ''b''] [''r'', ''a'', ''b'']]\<rparr>"
  let ?st2 = "\<lparr>fs = Dir [(''s'', Dir [(''c'', File [3] True True)] True True),
                          (''r'', Dir [(''c'', File [3] True True)] True True)] True True,
                events = [Info_DirCreated [''r'', ''a''],
                          Info_Synchronizing [''s'', ''c''] [''r'', ''c''],
                          Info_Synchronizing [''s'', ''a'', ''b''] [''r'', ''a'', ''b''],
                          Info_DirRemoved [''r'', ''a'']]\<rparr>"
  have h1: "[''s''] \<parallel> [''r'']" by (simp add: parallel_def)
  have h2: "sync_folders 3 [''s''] [''r''] ?init = Some (Inr ?st)" by code_simp
  have h3: "all_listable (fs ?st) [''r'']"
    unfolding all_listable_def
  proof (intro allI impI)
    fix p :: path assume "isdir (fs ?st) ([''r''] @ p)"
    then show "listable (fs ?st) ([''r''] @ p)"
      by (cases p; cases "tl p"; cases "tl (tl p)")
         (auto simp: isdir_def listable_def lookup_Cons split: option.splits node.splits if_splits)
  qed
  have h4: "[''a''] \<noteq> []" by simp
  have h5: "path_exists (fs ?st) ([''s''] @ [''a''])" by (simp add: path_exists_def)
  have h6: "sync_folders 3 [''s''] [''r''] (?st\<lparr>fs := del ([''s''] @ [''a'']) (fs ?st)\<rparr>)
              = Some (Inr ?st2)"
    by code_simp
  have h7: "clean ?st2" by (simp add: clean_def)
  from deletion_propagates [OF h1 h2 h3 h4 h5 h6 h7]
  have "\<forall>q. lookup (fs ?st2) ([''r''] @ [''a''] @ q) = None" by (elim conjE)
  then have r: "\<forall>q. lookup (Dir [(''s'', Dir [(''c'', File [3] True True)] True True),
                     (''r'', Dir [(''c'', File [3] True True)] True True)] True True)
           ([''r''] @ [''a''] @ q) = None"
    by (metis state.select_convs(1))
  have h3': "all_listable (Dir [(''s'', Dir [(''a'', Dir [(''b'', File [2] True True)] True True),
                                  (''c'', File [3] True True)] True True),
                      (''r'', Dir [(''a'', Dir [(''b'', File [2] True True)] True True),
                                  (''c'', File [3] True True)] True True)] True True) [''r'']"
    using h3 by simp
  have h6': "sync_folders 3 [''s''] [''r''] (?st\<lparr>fs := del ([''s''] @ [''a''])
               (Dir [(''s'', Dir [(''a'', Dir [(''b'', File [2] True True)] True True),
                                 (''c'', File [3] True True)] True True),
                     (''r'', Dir [(''a'', Dir [(''b'', File [2] True True)] True True),
                                 (''c'', File [3] True True)] True True)] True True)\<rparr>)
              = Some (Inr ?st2)"
    using h6 by simp
  show ?thesis
    by (intro conjI) (rule h1 h2 h3' h6' r)+
qed

end
